theory Spec2Isabelle
  imports Main "HOL-Library.Word"
begin

section \<open>The allocator of \<^verbatim>\<open>src/src/allocator.hpp\<close>\<close>

text \<open>
  Class \<^verbatim>\<open>Allocator\<close> manages the memory between the program break found at construction
  (\<^verbatim>\<open>mem_start_\<close>) and the end of the last block it handed out (\<^verbatim>\<open>last_addr_\<close>). Every
  block starts with a memory control block \<^verbatim>\<open>mcb_st\<close>; the next block starts \<^verbatim>\<open>size\<close> bytes
  after the current one.

  Modelling decisions.
  \<^item> Addresses are natural numbers; pointer arithmetic is addition on them. (Overflow of a
    pointer is undefined behaviour in C++ and is not modelled.)
  \<^item> \<^verbatim>\<open>uint32_t\<close> is \<open>32 word\<close>, so \<^verbatim>\<open>size += sizeof(mcb_st)\<close> wraps around as in the source.
    Pointers and \<^verbatim>\<open>intptr_t\<close> are taken to be 64 bits wide, so the \<^verbatim>\<open>uint32_t\<close> handed to
    \<^verbatim>\<open>sbrk\<close> is never negative.
  \<^item> Memory is an array of bytes. An \<^verbatim>\<open>mcb_st\<close> at address \<open>a\<close> has its \<^verbatim>\<open>bool free\<close> in the
    byte at \<open>a\<close> and its \<^verbatim>\<open>uint32_t size\<close> in the bytes at \<open>a + 4\<close> to \<open>a + 7\<close>, lowest byte
    first; the bytes at \<open>a + 1\<close> to \<open>a + 3\<close> are padding. This is the layout of the usual
    ABIs. Two headers less than 8 bytes apart share bytes, and a store to one changes what
    is loaded from the other.
  \<^item> \<^verbatim>\<open>sizeof(mcb_st)\<close> is the parameter \<open>hs\<close>; with the layout above it is 8, or more where
    the ABI pads the end of the structure.
  \<^item> \<^verbatim>\<open>assert\<close> comes from \<^verbatim>\<open><cassert>\<close>: it evaluates its argument unless \<^verbatim>\<open>NDEBUG\<close> is defined,
    in which case it expands to nothing. The parameter \<open>ndebug\<close> says which build is meant;
    a build that does not define \<^verbatim>\<open>NDEBUG\<close>, the default, is \<open>ndebug = False\<close>.
  \<^item> \<^verbatim>\<open>sbrk\<close> is the operating system's: the state carries the program break \<open>brk\<close>, the
    largest break the system grants, \<open>brk_limit\<close>, and the size of a page. The process can
    access the memory below the end of the page that holds the last byte below the break.
    The store of a new header above that end stops the process with a segmentation fault.
    The loop of \<^verbatim>\<open>alloc\<close>, and \<^verbatim>\<open>free\<close>, load and store headers of blocks, which were stored
    before; these accesses are taken to succeed.
  \<^item> The \<^verbatim>\<open>while\<close> loop of \<^verbatim>\<open>alloc\<close> need not terminate (a block of size 0 stops the walk,
    a wrong size lets it miss \<^verbatim>\<open>last_addr_\<close>); it is a partial function, \<open>None\<close> meaning that
    the loop runs forever.
\<close>

subsection \<open>Data\<close>

type_synonym addr = nat

type_synonym memory = "addr \<Rightarrow> 8 word"

record mcb_st =
  mcb_free :: bool
  mcb_size :: "32 word"

record state =
  mem_start :: addr
  last_addr :: addr
  mem :: memory
  brk :: addr
  brk_limit :: addr
  page_size :: nat

text \<open>The one way in which a call can end without returning: the process is killed.\<close>

datatype error = Segfault

subsection \<open>Headers in memory\<close>

text \<open>
  Loading \<^verbatim>\<open>mcb->free\<close> and \<^verbatim>\<open>mcb->size\<close> from the header at \<open>a\<close>. A flag byte other than 0
  reads as true.
\<close>

definition load_free :: "memory \<Rightarrow> addr \<Rightarrow> bool" where
  "load_free m a = (m a \<noteq> 0)"

definition load_size :: "memory \<Rightarrow> addr \<Rightarrow> 32 word" where
  "load_size m a =
     word_of_nat (unat (m (a + 4)) + 256 * unat (m (a + 5)) + 65536 * unat (m (a + 6)) +
                  16777216 * unat (m (a + 7)))"

definition load_mcb :: "memory \<Rightarrow> addr \<Rightarrow> mcb_st" where
  "load_mcb m a = \<lparr>mcb_free = load_free m a, mcb_size = load_size m a\<rparr>"

text \<open>Byte \<open>i\<close> of a 32-bit value, byte 0 being the lowest.\<close>

definition byte_of :: "nat \<Rightarrow> 32 word \<Rightarrow> 8 word" where
  "byte_of i w = word_of_nat (unat w div 256 ^ i mod 256)"

text \<open>Storing \<^verbatim>\<open>mcb->free = b\<close> and \<^verbatim>\<open>mcb->size = w\<close> into the header at \<open>a\<close>.\<close>

definition store_free :: "memory \<Rightarrow> addr \<Rightarrow> bool \<Rightarrow> memory" where
  "store_free m a b = m(a := (if b then 1 else 0))"

definition store_size :: "memory \<Rightarrow> addr \<Rightarrow> 32 word \<Rightarrow> memory" where
  "store_size m a w =
     m(a + 4 := byte_of 0 w, a + 5 := byte_of 1 w, a + 6 := byte_of 2 w, a + 7 := byte_of 3 w)"

text \<open>The header that the allocator reads at address \<open>a\<close>.\<close>

definition heap :: "state \<Rightarrow> addr \<Rightarrow> mcb_st" where
  "heap st a = load_mcb (mem st) a"

subsection \<open>The heap-growth primitive\<close>

text \<open>The value \<^verbatim>\<open>(void * ) -1\<close> that \<^verbatim>\<open>sbrk\<close> returns when it cannot move the break.\<close>

definition sbrk_failed :: addr where
  "sbrk_failed = 2 ^ 64 - 1"

text \<open>
  \<^verbatim>\<open>sbrk(increment)\<close> for a non-negative increment: on success the break moves up and the
  previous break is returned; on failure the break stays and \<open>sbrk_failed\<close> is returned.
\<close>

definition sbrk :: "nat \<Rightarrow> state \<Rightarrow> addr \<times> state" where
  "sbrk increment st =
     (if brk st + increment \<le> brk_limit st
      then (brk st, st\<lparr>brk := brk st + increment\<rparr>)
      else (sbrk_failed, st))"

text \<open>
  The end of the memory the process can access: the break rounded up to a multiple of the
  page size. An address is accessible when it lies below.
\<close>

definition page_end :: "state \<Rightarrow> addr" where
  "page_end st =
     (if page_size st = 0 then brk st
      else ((brk st + page_size st - 1) div page_size st) * page_size st)"

definition accessible :: "state \<Rightarrow> addr \<Rightarrow> bool" where
  "accessible st a = (a < page_end st)"

subsection \<open>Constructor\<close>

text \<open>
  \<^verbatim>\<open>last_addr_ = sbrk(0); mem_start_ = last_addr_;\<close> in a process whose memory is \<open>m\<close>, whose
  break is \<open>b\<close>, whose break limit is \<open>lim\<close> and whose pages have \<open>pg\<close> bytes.
\<close>

definition Allocator :: "memory \<Rightarrow> addr \<Rightarrow> addr \<Rightarrow> nat \<Rightarrow> state" where
  "Allocator m b lim pg =
     (let st0 = \<lparr>mem_start = 0, last_addr = 0, mem = m, brk = b, brk_limit = lim,
                 page_size = pg\<rparr>;
          (r, st1) = sbrk 0 st0;
          st2 = st1\<lparr>last_addr := r\<rparr>
      in st2\<lparr>mem_start := last_addr st2\<rparr>)"

subsection \<open>free\<close>

text \<open>
  \<^verbatim>\<open>block_mcb = (mcb_st * )((uint8_t * )block - sizeof(mcb_st)); block_mcb->free = true;\<close>
  The store changes one byte. The subtraction on \<open>nat\<close> stops at 0 where the pointer is
  below \<open>hs\<close>; every pointer that \<^verbatim>\<open>alloc\<close> returns is at least \<open>hs\<close>.
\<close>

definition free :: "nat \<Rightarrow> addr \<Rightarrow> state \<Rightarrow> state" where
  "free hs block st =
     (let block_mcb = block - hs
      in st\<lparr>mem := store_free (mem st) block_mcb True\<rparr>)"

subsection \<open>alloc\<close>

text \<open>
  The loop \<^verbatim>\<open>while (curr != last_addr_)\<close> of \<^verbatim>\<open>alloc\<close>, started at \<open>cur\<close> with the total size
  \<open>sz\<close>. It returns \<open>Some (Some ret, st')\<close> when the \<^verbatim>\<open>return (ret)\<close> inside the loop is taken,
  \<open>Some (None, st)\<close> when the loop is left at \<^verbatim>\<open>last_addr_\<close>, and \<open>None\<close> when it runs forever.
\<close>

partial_function (option) alloc_loop ::
  "nat \<Rightarrow> 32 word \<Rightarrow> addr \<Rightarrow> state \<Rightarrow> (addr option \<times> state) option" where
  "alloc_loop hs sz cur st =
     (if cur \<noteq> last_addr st then
        (let mcb = heap st cur in
         if mcb_free mcb \<and> mcb_size mcb \<ge> sz then
           Some (Some (cur + hs), st\<lparr>mem := store_free (mem st) cur False\<rparr>)
         else alloc_loop hs sz (cur + unat (mcb_size mcb)) st)
      else Some (None, st))"

text \<open>
  The first statement of \<^verbatim>\<open>alloc\<close> is \<^verbatim>\<open>assert(size =! 0);\<close>. C++ reads \<^verbatim>\<open>size =! 0\<close> as
  \<^verbatim>\<open>size = !0\<close>: the assignment of \<^verbatim>\<open>true\<close>, that is 1, to \<^verbatim>\<open>size\<close>. The value of the
  assignment is 1, so the assertion never aborts. With \<^verbatim>\<open>NDEBUG\<close> the statement disappears
  and \<^verbatim>\<open>size\<close> keeps the caller's value.
\<close>

definition assert_size :: "bool \<Rightarrow> 32 word \<Rightarrow> 32 word" where
  "assert_size ndebug size0 = (if ndebug then size0 else 1)"

text \<open>
  The end of \<^verbatim>\<open>alloc\<close>, reached when the loop found no block: \<^verbatim>\<open>sbrk(size)\<close>, whose result
  is dropped as in the source, then the new block at \<^verbatim>\<open>last_addr_\<close>, whatever \<^verbatim>\<open>sbrk\<close>
  answered. \<^verbatim>\<open>mcb->free = false\<close> stores the byte at \<open>ret\<close>, \<^verbatim>\<open>mcb->size = size\<close> the bytes
  at \<open>ret + 4\<close> to \<open>ret + 7\<close>; a store to a byte that is not accessible ends the process.
\<close>

definition alloc_new :: "nat \<Rightarrow> 32 word \<Rightarrow> state \<Rightarrow> error + addr \<times> state" where
  "alloc_new hs sz st =
     (let (_, st1) = sbrk (unat sz) st;
          ret = last_addr st1;
          st2 = st1\<lparr>last_addr := last_addr st1 + unat sz\<rparr>
      in if \<not> accessible st2 ret then Inl Segfault
         else
           (let st3 = st2\<lparr>mem := store_free (mem st2) ret False\<rparr>
            in if \<not> accessible st3 (ret + 7) then Inl Segfault
               else Inr (ret + hs, st3\<lparr>mem := store_size (mem st3) ret sz\<rparr>)))"

text \<open>\<^verbatim>\<open>alloc(size)\<close>: the assertion, \<^verbatim>\<open>size += sizeof(mcb_st)\<close>, the loop and the new block.\<close>

definition alloc ::
  "bool \<Rightarrow> nat \<Rightarrow> 32 word \<Rightarrow> state \<Rightarrow> (error + addr \<times> state) option" where
  "alloc ndebug hs size0 st =
     (let size1 = assert_size ndebug size0;
          size2 = size1 + word_of_nat hs
      in case alloc_loop hs size2 (mem_start st) st of
           None \<Rightarrow> None
         | Some (Some ret, st1) \<Rightarrow> Some (Inr (ret, st1))
         | Some (None, st1) \<Rightarrow> Some (alloc_new hs size2 st1))"

subsection \<open>The blocks of an arena\<close>

text \<open>
  \<open>blocks h a e\<close> walks the headers \<open>h\<close> from \<open>a\<close>, each block starting where the previous
  one ends. It is \<open>Some\<close> of the block addresses when every block met has a size above 0 and
  the walk lands exactly on \<open>e\<close>, and \<open>None\<close> otherwise.
\<close>

function blocks :: "(addr \<Rightarrow> mcb_st) \<Rightarrow> addr \<Rightarrow> addr \<Rightarrow> addr list option" where
  "blocks h a e =
     (if a = e then Some []
      else if e < a \<or> mcb_size (h a) = 0 then None
      else map_option ((#) a) (blocks h (a + unat (mcb_size (h a))) e))"
  by pat_completeness auto
termination
  apply (relation "measure (\<lambda>(h, a, e). e - a)")
   apply simp
  subgoal for h a e
    using unat_gt_0 [of "mcb_size (h a)"] by auto
  done

definition arena_blocks :: "state \<Rightarrow> addr list option" where
  "arena_blocks st = blocks (heap st) (mem_start st) (last_addr st)"

text \<open>The partition invariant: \<open>[mem_start, last_addr)\<close> is cut into blocks without gaps.\<close>

definition partitioned :: "state \<Rightarrow> bool" where
  "partitioned st = (arena_blocks st \<noteq> None)"

text \<open>
  A block qualifies for a request of \<open>n\<close> payload bytes when it is free and its size is at
  least \<open>n + hs\<close>, the sum taken in the natural numbers.
\<close>

definition qualifies :: "nat \<Rightarrow> 32 word \<Rightarrow> mcb_st \<Rightarrow> bool" where
  "qualifies hs n m = (mcb_free m \<and> unat n + hs \<le> unat (mcb_size m))"

text \<open>The first block, in address order, that qualifies.\<close>

definition first_fit :: "nat \<Rightarrow> 32 word \<Rightarrow> state \<Rightarrow> addr option" where
  "first_fit hs n st =
     (case arena_blocks st of
        None \<Rightarrow> None
      | Some bs \<Rightarrow> find (\<lambda>a. qualifies hs n (heap st a)) bs)"

subsection \<open>Sequences of calls\<close>

text \<open>
  One call on an allocator: the state comes with the set of pointers \<^verbatim>\<open>alloc\<close> has returned
  so far, and \<^verbatim>\<open>free\<close> is applied to such pointers only. A call of \<^verbatim>\<open>alloc\<close> that ends the
  process has no successor.
\<close>

inductive step :: "bool \<Rightarrow> nat \<Rightarrow> state \<times> addr set \<Rightarrow> state \<times> addr set \<Rightarrow> bool"
  for ndebug :: bool and hs :: nat where
  step_alloc:
    "alloc ndebug hs n st = Some (Inr (p, st')) \<Longrightarrow> step ndebug hs (st, P) (st', insert p P)"
| step_free: "p \<in> P \<Longrightarrow> step ndebug hs (st, P) (free hs p st, P)"

text \<open>The states reachable from a fresh allocator.\<close>

definition reachable :: "bool \<Rightarrow> nat \<Rightarrow> state \<Rightarrow> addr set \<Rightarrow> bool" where
  "reachable ndebug hs st P =
     (\<exists>m b lim pg. (step ndebug hs)\<^sup>*\<^sup>* (Allocator m b lim pg, {}) (st, P))"

text \<open>Allocations one after the other, with no free in between; the pointers returned.\<close>

fun alloc_seq ::
  "bool \<Rightarrow> nat \<Rightarrow> 32 word list \<Rightarrow> state \<Rightarrow> (error + addr list \<times> state) option" where
  "alloc_seq ndebug hs [] st = Some (Inr ([], st))"
| "alloc_seq ndebug hs (n # ns) st =
     (case alloc ndebug hs n st of
        None \<Rightarrow> None
      | Some (Inl e) \<Rightarrow> Some (Inl e)
      | Some (Inr (p, st1)) \<Rightarrow>
          (case alloc_seq ndebug hs ns st1 of
             None \<Rightarrow> None
           | Some (Inl e) \<Rightarrow> Some (Inl e)
           | Some (Inr (ps, st2)) \<Rightarrow> Some (Inr (p # ps, st2))))"

text \<open>
  Two payload spans, each given by its first address and its length, overlap when each
  starts before the other ends.
\<close>

definition overlap :: "addr \<times> nat \<Rightarrow> addr \<times> nat \<Rightarrow> bool" where
  "overlap x y = (fst x < fst y + snd y \<and> fst y < fst x + snd x)"

text \<open>The spans of a list are pairwise disjoint.\<close>

fun spans_disjoint :: "(addr \<times> nat) list \<Rightarrow> bool" where
  "spans_disjoint [] = True"
| "spans_disjoint (x # xs) = (list_all (\<lambda>y. \<not> overlap x y) xs \<and> spans_disjoint xs)"

text \<open>
  An arena in which every block is as large as the assert build makes it, \<open>1 + hs\<close> bytes,
  and every pointer handed out is the payload of one of its blocks.
\<close>

definition uniform :: "nat \<Rightarrow> state \<Rightarrow> addr set \<Rightarrow> bool" where
  "uniform hs st P =
     (case arena_blocks st of
        None \<Rightarrow> False
      | Some bs \<Rightarrow>
          list_all (\<lambda>a. mcb_size (heap st a) = 1 + word_of_nat hs) bs \<and>
          (\<forall>p \<in> P. hs \<le> p \<and> p - hs \<in> set bs))"

text \<open>An arena in which every block has 8 bytes or more, room for its header.\<close>

definition roomy :: "state \<Rightarrow> bool" where
  "roomy st =
     (case arena_blocks st of
        None \<Rightarrow> False
      | Some bs \<Rightarrow> list_all (\<lambda>a. 8 \<le> unat (mcb_size (heap st a))) bs)"

text \<open>An arena all of whose blocks are in use.\<close>

definition all_used :: "state \<Rightarrow> bool" where
  "all_used st =
     (case arena_blocks st of
        None \<Rightarrow> False
      | Some bs \<Rightarrow> list_all (\<lambda>a. \<not> mcb_free (heap st a)) bs)"

subsection \<open>Example processes\<close>

text \<open>Memory filled with zeros.\<close>

definition zero_mem :: memory where
  "zero_mem = (\<lambda>_. 0)"

text \<open>A header stored at \<open>a\<close>: the flag, then the size.\<close>

definition store_mcb :: "memory \<Rightarrow> addr \<Rightarrow> bool \<Rightarrow> 32 word \<Rightarrow> memory" where
  "store_mcb m a f w = store_size (store_free m a f) a w"

text \<open>
  A fresh allocator in a process whose break is 1000 and may grow up to 4096, with pages of
  4096 bytes.
\<close>

definition fresh :: state where
  "fresh = Allocator zero_mem 1000 4096 4096"

text \<open>
  A fresh allocator in a process whose break, 1000, cannot grow; the page of the break
  ends at 4096.
\<close>

definition fresh_full :: state where
  "fresh_full = Allocator zero_mem 1000 1000 4096"

text \<open>
  A fresh allocator in a process whose break, 4096, cannot grow and lies at the end of a
  page.
\<close>

definition fresh_aligned :: state where
  "fresh_aligned = Allocator zero_mem 4096 4096 4096"

text \<open>An arena of two free blocks, of sizes 9 and 58, with headers of 8 bytes.\<close>

definition two_free :: state where
  "two_free =
     \<lparr>mem_start = 1000, last_addr = 1067,
      mem = store_mcb (store_mcb zero_mem 1000 True 9) 1009 True 58,
      brk = 1067, brk_limit = 4096, page_size = 4096\<rparr>"

text \<open>
  One used block of 9 bytes: the allocator after \<^verbatim>\<open>alloc(1)\<close> on \<open>fresh\<close>, built with the
  assertion compiled in and headers of 8 bytes.
\<close>

definition small_block :: state where
  "small_block =
     \<lparr>mem_start = 1000, last_addr = 1009,
      mem = store_mcb zero_mem 1000 False 9,
      brk = 1009, brk_limit = 4096, page_size = 4096\<rparr>"

text \<open>Two used blocks of 9 bytes: \<open>small_block\<close> after one more \<^verbatim>\<open>alloc\<close> of the same build.\<close>

definition two_small :: state where
  "two_small =
     \<lparr>mem_start = 1000, last_addr = 1018,
      mem = store_mcb (store_mcb zero_mem 1000 False 9) 1009 False 9,
      brk = 1018, brk_limit = 4096, page_size = 4096\<rparr>"

text \<open>
  With \<^verbatim>\<open>NDEBUG\<close> and headers of 8 bytes: \<open>fresh\<close> after \<^verbatim>\<open>alloc(0xFFFFFFFF)\<close>, whose total size
  wraps to 7; then after \<^verbatim>\<open>alloc(16)\<close>, which returns 1015; then after \<^verbatim>\<open>free(1015)\<close>.
\<close>

definition wrapped1 :: state where
  "wrapped1 =
     \<lparr>mem_start = 1000, last_addr = 1007,
      mem = store_mcb zero_mem 1000 False 7,
      brk = 1007, brk_limit = 4096, page_size = 4096\<rparr>"

definition wrapped2 :: state where
  "wrapped2 =
     \<lparr>mem_start = 1000, last_addr = 1031,
      mem = store_mcb (store_mcb zero_mem 1000 False 7) 1007 False 24,
      brk = 1031, brk_limit = 4096, page_size = 4096\<rparr>"

definition wrapped3 :: state where
  "wrapped3 = free 8 1015 wrapped2"

section \<open>Loads and stores\<close>

lemma unat_byte_of: "unat (byte_of i w) = unat w div 256 ^ i mod 256"
  by (simp add: byte_of_def unat_of_nat)

lemma bytes_sum:
  fixes x :: nat
  shows "x mod 256 + 256 * (x div 256 mod 256) + 65536 * (x div 65536 mod 256) +
         16777216 * (x div 16777216) = x"
proof -
  have a: "x mod 256 + 256 * (x div 256) = x" by simp
  have b: "x div 256 mod 256 + 256 * (x div 65536) = x div 256"
    using div_mult2_eq [of x 256 256] by simp
  have c: "x div 65536 mod 256 + 256 * (x div 16777216) = x div 65536"
    using div_mult2_eq [of x 65536 256] by simp
  have "x mod 256 + 256 * (x div 256 mod 256) + 65536 * (x div 65536 mod 256) +
        16777216 * (x div 16777216) =
        x mod 256 + 256 * (x div 256 mod 256 +
          256 * (x div 65536 mod 256 + 256 * (x div 16777216)))"
    by simp
  also have "\<dots> = x" by (simp only: c b a)
  finally show ?thesis .
qed

text \<open>A size that was stored is the size loaded.\<close>

lemma load_size_store_size: "load_size (store_size m a w) a = w"
proof -
  have lt: "unat w < 2 ^ 32" using unsigned_less [of w] by simp
  then have "unat w div 16777216 < 256" by simp
  then have d: "unat w div 16777216 mod 256 = unat w div 16777216" by simp
  from bytes_sum [of "unat w"] d
  have e: "unat (byte_of 0 w) + 256 * unat (byte_of 1 w) + 65536 * unat (byte_of 2 w) +
           16777216 * unat (byte_of 3 w) = unat w"
    by (simp add: unat_byte_of)
  have "load_size (store_size m a w) a =
        word_of_nat (unat (byte_of 0 w) + 256 * unat (byte_of 1 w) + 65536 * unat (byte_of 2 w) +
                     16777216 * unat (byte_of 3 w))"
    by (simp add: load_size_def store_size_def del: of_nat_add of_nat_mult)
  then show ?thesis by (simp only: e) simp
qed

text \<open>What a load sees depends on the bytes of its own field only.\<close>

lemma load_size_cong:
  "m' (a + 4) = m (a + 4) \<Longrightarrow> m' (a + 5) = m (a + 5) \<Longrightarrow> m' (a + 6) = m (a + 6) \<Longrightarrow>
   m' (a + 7) = m (a + 7) \<Longrightarrow> load_size m' a = load_size m a"
  by (simp add: load_size_def)

lemma load_size_store_size_other:
  "a + 4 \<le> b \<or> b + 4 \<le> a \<Longrightarrow> load_size (store_size m a w) b = load_size m b"
  by (rule load_size_cong) (auto simp: store_size_def)

lemma load_size_store_free:
  "a < b + 4 \<or> b + 7 < a \<Longrightarrow> load_size (store_free m a v) b = load_size m b"
  by (rule load_size_cong) (auto simp: store_free_def)

lemma load_free_store_free:
  "load_free (store_free m a v) b = (if b = a then v else load_free m b)"
  by (simp add: load_free_def store_free_def)

lemma load_free_store_size:
  "b < a + 4 \<or> a + 7 < b \<Longrightarrow> load_free (store_size m a w) b = load_free m b"
  by (auto simp: load_free_def store_size_def)

lemma load_mcb_store_mcb: "load_mcb (store_mcb m a f w) a = \<lparr>mcb_free = f, mcb_size = w\<rparr>"
  by (simp add: load_mcb_def store_mcb_def load_size_store_size load_free_store_size
      load_free_store_free)

text \<open>A header at least 8 bytes away from a stored one is not changed.\<close>

lemma load_mcb_store_mcb_other:
  "a + 8 \<le> b \<or> b + 8 \<le> a \<Longrightarrow> load_mcb (store_mcb m a f w) b = load_mcb m b"
  by (auto simp: load_mcb_def store_mcb_def load_size_store_size_other load_free_store_size
      load_free_store_free load_size_store_free)

lemma load_mcb_zero: "load_mcb zero_mem a = \<lparr>mcb_free = False, mcb_size = 0\<rparr>"
  by (simp add: load_mcb_def zero_mem_def load_free_def load_size_def)

section \<open>The walk over the blocks\<close>

declare blocks.simps [simp del]

lemma blocks_refl: "blocks h e e = Some []"
  by (simp add: blocks.simps [of h e e])

text \<open>The walk reads sizes only, and only at addresses between its two ends.\<close>

lemma blocks_same_size:
  "(\<And>x. a \<le> x \<Longrightarrow> x < e \<Longrightarrow> mcb_size (h' x) = mcb_size (h x)) \<Longrightarrow> blocks h' a e = blocks h a e"
proof (induction h a e rule: blocks.induct)
  case (1 h a e)
  show ?case
  proof (cases "a = e \<or> e < a \<or> mcb_size (h a) = 0")
    case True
    then show ?thesis
      using "1.prems" [of a] by (auto simp: blocks.simps [of h a e] blocks.simps [of h' a e])
  next
    case False
    then have sz: "mcb_size (h' a) = mcb_size (h a)" using "1.prems" [of a] by simp
    have "blocks h' (a + unat (mcb_size (h a))) e = blocks h (a + unat (mcb_size (h a))) e"
      using False "1.prems" by (intro "1.IH") auto
    then show ?thesis
      using False sz by (simp add: blocks.simps [of h a e] blocks.simps [of h' a e])
  qed
qed

lemma blocks_bounds:
  "blocks h a e = Some bs \<Longrightarrow> x \<in> set bs \<Longrightarrow> a \<le> x \<and> x < e"
proof (induction h a e arbitrary: bs rule: blocks.induct)
  case (1 h a e)
  show ?case
  proof (cases "a = e \<or> e < a \<or> mcb_size (h a) = 0")
    case True
    then show ?thesis using "1.prems" by (auto simp: blocks.simps [of h a e] split: if_splits)
  next
    case False
    then obtain bs' where bs': "blocks h (a + unat (mcb_size (h a))) e = Some bs'" "bs = a # bs'"
      using "1.prems"(1) by (auto simp: blocks.simps [of h a e])
    show ?thesis
    proof (cases "x = a")
      case True
      then show ?thesis using False by auto
    next
      case False': False
      then have "x \<in> set bs'" using bs' "1.prems"(2) by simp
      then have "a + unat (mcb_size (h a)) \<le> x \<and> x < e"
        using "1.IH" [OF _ _ bs'(1)] False by auto
      then show ?thesis by simp
    qed
  qed
qed

text \<open>Every block of the walk has a size above 0, and the sizes add up to the distance.\<close>

lemma blocks_sizes:
  "blocks h a e = Some bs \<Longrightarrow>
   (\<forall>x \<in> set bs. 0 < unat (mcb_size (h x))) \<and>
   a + sum_list (map (\<lambda>x. unat (mcb_size (h x))) bs) = e"
proof (induction h a e arbitrary: bs rule: blocks.induct)
  case (1 h a e)
  show ?case
  proof (cases "a = e")
    case True
    then show ?thesis using "1.prems" by (simp add: blocks_refl)
  next
    case False
    then have ok: "\<not> e < a" "mcb_size (h a) \<noteq> 0"
      using "1.prems" by (auto simp: blocks.simps [of h a e] split: if_splits)
    then obtain bs' where bs': "blocks h (a + unat (mcb_size (h a))) e = Some bs'" "bs = a # bs'"
      using False "1.prems" by (auto simp: blocks.simps [of h a e])
    show ?thesis
      using "1.IH" [OF False _ bs'(1)] ok bs'(2) by (simp add: unat_gt_0)
  qed
qed

text \<open>The walk lists the blocks in address order.\<close>

lemma blocks_sorted: "blocks h a e = Some bs \<Longrightarrow> sorted_wrt (<) bs"
proof (induction h a e arbitrary: bs rule: blocks.induct)
  case (1 h a e)
  show ?case
  proof (cases "a = e")
    case True
    then show ?thesis using "1.prems" by (simp add: blocks_refl)
  next
    case False
    then have ok: "\<not> e < a" "mcb_size (h a) \<noteq> 0"
      using "1.prems" by (auto simp: blocks.simps [of h a e] split: if_splits)
    then obtain bs' where bs': "blocks h (a + unat (mcb_size (h a))) e = Some bs'" "bs = a # bs'"
      using False "1.prems" by (auto simp: blocks.simps [of h a e])
    have "\<forall>x \<in> set bs'. a < x"
      using blocks_bounds [OF bs'(1)] ok(2) unat_gt_0 [of "mcb_size (h a)"] by fastforce
    then show ?thesis
      using "1.IH" [OF False _ bs'(1)] ok bs'(2) by simp
  qed
qed

text \<open>A block written where the walk ends becomes its last block.\<close>

lemma blocks_append:
  "blocks h a e = Some bs \<Longrightarrow> mcb_size (h e) \<noteq> 0 \<Longrightarrow>
   blocks h a (e + unat (mcb_size (h e))) = Some (bs @ [e])"
proof (induction h a e arbitrary: bs rule: blocks.induct)
  case (1 h a e)
  have pos: "0 < unat (mcb_size (h e))" using "1.prems"(2) by (simp add: unat_gt_0)
  show ?case
  proof (cases "a = e")
    case True
    then have "bs = []" using "1.prems"(1) by (simp add: blocks_refl)
    moreover have "blocks h e (e + unat (mcb_size (h e))) = Some [e]"
      using pos "1.prems"(2)
      by (simp add: blocks.simps [of h e "e + unat (mcb_size (h e))"] blocks_refl)
    ultimately show ?thesis using True by simp
  next
    case False
    then have ok: "\<not> e < a" "mcb_size (h a) \<noteq> 0"
      using "1.prems"(1) by (auto simp: blocks.simps [of h a e] split: if_splits)
    then obtain bs' where bs': "blocks h (a + unat (mcb_size (h a))) e = Some bs'" "bs = a # bs'"
      using False "1.prems"(1) by (auto simp: blocks.simps [of h a e])
    have "blocks h (a + unat (mcb_size (h a))) (e + unat (mcb_size (h e))) = Some (bs' @ [e])"
      using "1.IH" [OF False _ bs'(1) "1.prems"(2)] ok by simp
    then show ?thesis
      using False ok bs' pos
      by (simp add: blocks.simps [of h a "e + unat (mcb_size (h e))"])
  qed
qed

section \<open>The loop of alloc on a partitioned arena\<close>

text \<open>
  Where the walk from \<open>cur\<close> reaches \<^verbatim>\<open>last_addr_\<close>, the loop returns: it takes the first block
  of the walk that is free and at least \<open>sz\<close> large, or leaves at \<^verbatim>\<open>last_addr_\<close>.
\<close>

lemma alloc_loop_blocks:
  "blocks (heap st) cur (last_addr st) = Some bs \<Longrightarrow>
   alloc_loop hs sz cur st =
     Some (case find (\<lambda>a. mcb_free (heap st a) \<and> sz \<le> mcb_size (heap st a)) bs of
             None \<Rightarrow> (None, st)
           | Some a \<Rightarrow> (Some (a + hs), st\<lparr>mem := store_free (mem st) a False\<rparr>))"
proof (induction "heap st" cur "last_addr st" arbitrary: bs rule: blocks.induct)
  case (1 a)
  show ?case
  proof (cases "a = last_addr st")
    case True
    then have "bs = []" using "1.prems" by (simp add: blocks_refl)
    then show ?thesis using True by (subst alloc_loop.simps) simp
  next
    case False
    then have ok: "\<not> last_addr st < a" "mcb_size (heap st a) \<noteq> 0"
      using "1.prems" by (auto simp: blocks.simps [of "heap st" a "last_addr st"] split: if_splits)
    then obtain bs' where bs':
      "blocks (heap st) (a + unat (mcb_size (heap st a))) (last_addr st) = Some bs'" "bs = a # bs'"
      using False "1.prems" by (auto simp: blocks.simps [of "heap st" a "last_addr st"])
    note IH = "1.hyps" [OF False _ bs'(1)]
    show ?thesis
      using False ok bs'(2) IH
      by (subst alloc_loop.simps) (simp add: Let_def)
  qed
qed

lemma page_end_sbrk:
  "page_end (snd (sbrk i st)\<lparr>last_addr := l\<rparr>) = page_end (snd (sbrk i st))"
  "page_end (st\<lparr>mem := m\<rparr>) = page_end st"
  "page_end (st\<lparr>last_addr := l\<rparr>) = page_end st"
  by (simp_all add: page_end_def)

text \<open>\<^verbatim>\<open>sbrk\<close> never takes memory away.\<close>

lemma page_end_sbrk_le: "page_end st \<le> page_end (snd (sbrk i st))"
proof (cases "brk st + i \<le> brk_limit st \<and> page_size st \<noteq> 0")
  case True
  have "(brk st + page_size st - 1) div page_size st \<le> (brk st + i + page_size st - 1) div page_size st"
    by (rule div_le_mono) simp
  then show ?thesis using True by (simp add: page_end_def sbrk_def)
next
  case False
  then show ?thesis by (auto simp: page_end_def sbrk_def)
qed

text \<open>The new block: the header is stored when its 8 bytes are accessible after \<^verbatim>\<open>sbrk\<close>.\<close>

lemma alloc_new_eq:
  "alloc_new hs sz st =
     (if last_addr st + 7 < page_end (snd (sbrk (unat sz) st))
      then Inr (last_addr st + hs,
                st\<lparr>last_addr := last_addr st + unat sz,
                   mem := store_mcb (mem st) (last_addr st) False sz,
                   brk := brk (snd (sbrk (unat sz) st))\<rparr>)
      else Inl Segfault)"
  by (auto simp: alloc_new_def sbrk_def Let_def accessible_def page_end_def store_mcb_def)

lemma alloc_partitioned:
  assumes "arena_blocks st = Some bs"
  shows "alloc nd hs n st =
     Some (case find (\<lambda>a. mcb_free (heap st a) \<and>
                           assert_size nd n + word_of_nat hs \<le> mcb_size (heap st a)) bs of
             Some a \<Rightarrow> Inr (a + hs, st\<lparr>mem := store_free (mem st) a False\<rparr>)
           | None \<Rightarrow> alloc_new hs (assert_size nd n + word_of_nat hs) st)"
proof -
  have "blocks (heap st) (mem_start st) (last_addr st) = Some bs"
    using assms by (simp add: arena_blocks_def)
  note L = alloc_loop_blocks [OF this, of hs "assert_size nd n + word_of_nat hs"]
  show ?thesis
    unfolding alloc_def Let_def L by (simp split: option.split)
qed

text \<open>
  C10. On every arena whose blocks, walked from \<^verbatim>\<open>mem_start_\<close>, all have a size above 0 and
  end exactly at \<^verbatim>\<open>last_addr_\<close>, the loop of \<^verbatim>\<open>alloc\<close> terminates, whatever size is looked
  for, and so does \<^verbatim>\<open>alloc\<close>.
\<close>

theorem scan_terminates:
  assumes "partitioned st"
  shows "(\<exists>r. alloc_loop hs sz (mem_start st) st = Some r) \<and> (\<exists>r. alloc ndebug hs n st = Some r)"
proof -
  from assms obtain bs where bs: "arena_blocks st = Some bs"
    by (auto simp: partitioned_def)
  then have "blocks (heap st) (mem_start st) (last_addr st) = Some bs"
    by (simp add: arena_blocks_def)
  from alloc_loop_blocks [OF this] have "\<exists>r. alloc_loop hs sz (mem_start st) st = Some r"
    by simp
  moreover have "\<exists>r. alloc ndebug hs n st = Some r"
    by (simp add: alloc_partitioned [OF bs])
  ultimately show ?thesis by simp
qed

subsection \<open>The example processes\<close>

lemma two_free_heap:
  "heap two_free 1000 = \<lparr>mcb_free = True, mcb_size = 9\<rparr>"
  "heap two_free 1009 = \<lparr>mcb_free = True, mcb_size = 58\<rparr>"
  by (simp_all add: heap_def two_free_def load_mcb_store_mcb load_mcb_store_mcb_other)

lemma two_free_ends: "mem_start two_free = 1000" "last_addr two_free = 1067"
  by (simp_all add: two_free_def)

lemma two_free_blocks: "arena_blocks two_free = Some [1000, 1009]"
  by (simp add: arena_blocks_def two_free_ends blocks.simps two_free_heap)

theorem scan_terminates_witness:
  "partitioned two_free \<and>
   (\<exists>r. alloc_loop 8 28 (mem_start two_free) two_free = Some r) \<and>
   (\<exists>r. alloc False 8 20 two_free = Some r)"
proof -
  have p: "partitioned two_free" by (simp add: partitioned_def two_free_blocks)
  show ?thesis using p scan_terminates [OF p, of 8 28 False 20] by simp
qed

lemma fresh_eq:
  "fresh = \<lparr>mem_start = 1000, last_addr = 1000, mem = zero_mem, brk = 1000, brk_limit = 4096,
            page_size = 4096\<rparr>"
  by (simp add: fresh_def Allocator_def sbrk_def Let_def)

lemma fresh_full_eq:
  "fresh_full =
     \<lparr>mem_start = 1000, last_addr = 1000, mem = zero_mem, brk = 1000, brk_limit = 1000,
      page_size = 4096\<rparr>"
  by (simp add: fresh_full_def Allocator_def sbrk_def Let_def)

lemma fresh_aligned_eq:
  "fresh_aligned =
     \<lparr>mem_start = 4096, last_addr = 4096, mem = zero_mem, brk = 4096, brk_limit = 4096,
      page_size = 4096\<rparr>"
  by (simp add: fresh_aligned_def Allocator_def sbrk_def Let_def)

lemma Allocator_fields:
  "mem_start (Allocator m b lim pg) = last_addr (Allocator m b lim pg)"
  "mem (Allocator m b lim pg) = m"
  by (simp_all add: Allocator_def sbrk_def Let_def)

lemma Allocator_partitioned: "arena_blocks (Allocator m b lim pg) = Some []"
  by (simp add: arena_blocks_def Allocator_fields blocks_refl)

lemma fresh_blocks: "arena_blocks fresh = Some []"
  by (simp add: fresh_def Allocator_partitioned)

lemma fresh_full_blocks: "arena_blocks fresh_full = Some []"
  by (simp add: fresh_full_def Allocator_partitioned)

lemma fresh_aligned_blocks: "arena_blocks fresh_aligned = Some []"
  by (simp add: fresh_aligned_def Allocator_partitioned)

lemma small_block_heap: "heap small_block 1000 = \<lparr>mcb_free = False, mcb_size = 9\<rparr>"
  by (simp add: heap_def small_block_def load_mcb_store_mcb)

lemma small_block_ends: "mem_start small_block = 1000" "last_addr small_block = 1009"
  by (simp_all add: small_block_def)

lemma small_block_blocks: "arena_blocks small_block = Some [1000]"
  by (simp add: arena_blocks_def small_block_ends blocks.simps small_block_heap)

section \<open>Properties of free\<close>

text \<open>
  C9. Calling \<^verbatim>\<open>free(p)\<close> twice in a row leaves the allocator and the memory in exactly the
  state one call leaves them in: the second call stores the byte that is already there.
\<close>

theorem free_idempotent: "free hs p (free hs p st) = free hs p st"
  by (simp add: free_def Let_def store_free_def)

section \<open>alloc without the assertion\<close>

lemma no_wrap: "unat n + hs < 2 ^ 32 \<Longrightarrow> unat (n + word_of_nat hs :: 32 word) = unat n + hs"
  by (simp add: unat_word_ariths unat_of_nat)

lemma qualifies_no_wrap:
  "unat n + hs < 2 ^ 32 \<Longrightarrow>
   qualifies hs n m = (mcb_free m \<and> n + word_of_nat hs \<le> mcb_size m)"
  by (simp add: qualifies_def word_le_nat_alt no_wrap)

lemma find_qualifies_no_wrap:
  "unat n + hs < 2 ^ 32 \<Longrightarrow>
   find (\<lambda>a. mcb_free (heap st a) \<and> n + word_of_nat hs \<le> mcb_size (heap st a)) bs =
   find (\<lambda>a. qualifies hs n (heap st a)) bs"
  by (simp add: qualifies_no_wrap)

lemma qualifies_bound: "qualifies hs n m \<Longrightarrow> unat n + hs < 2 ^ 32"
proof -
  assume "qualifies hs n m"
  then have "unat n + hs \<le> unat (mcb_size m)" by (simp add: qualifies_def)
  moreover have "unat (mcb_size m) < 2 ^ 32" using unsigned_less [of "mcb_size m"] by simp
  ultimately show ?thesis by simp
qed

lemma first_fit_earliest:
  assumes "first_fit hs n st = Some a"
  shows "\<exists>bs. arena_blocks st = Some bs \<and> a \<in> set bs \<and> qualifies hs n (heap st a) \<and>
              (\<forall>b \<in> set bs. b < a \<longrightarrow> \<not> qualifies hs n (heap st b))"
proof -
  from assms obtain bs where bs: "arena_blocks st = Some bs"
    and f: "find (\<lambda>a. qualifies hs n (heap st a)) bs = Some a"
    by (auto simp: first_fit_def split: option.splits)
  from f obtain i where i: "i < length bs" "qualifies hs n (heap st (bs ! i))" "a = bs ! i"
    "\<forall>j<i. \<not> qualifies hs n (heap st (bs ! j))"
    by (auto simp: find_Some_iff)
  have srt: "sorted_wrt (<) bs"
    using bs blocks_sorted by (simp add: arena_blocks_def)
  have "\<not> qualifies hs n (heap st b)" if "b \<in> set bs" "b < a" for b
  proof -
    from that(1) obtain j where j: "j < length bs" "b = bs ! j" by (auto simp: in_set_conv_nth)
    have "j < i"
    proof (rule ccontr)
      assume "\<not> j < i"
      then have "i \<le> j" by simp
      then have "bs ! i \<le> bs ! j"
      proof (cases "i = j")
        case True
        then show ?thesis by simp
      next
        case False
        then have "i < j" using \<open>i \<le> j\<close> by simp
        then have "bs ! i < bs ! j"
          using srt j(1) by (simp add: sorted_wrt_iff_nth_less)
        then show ?thesis by simp
      qed
      then show False using that(2) i(3) j(2) by simp
    qed
    then show ?thesis using i(4) j(2) by simp
  qed
  then show ?thesis using bs i by auto
qed

lemma first_fit_None:
  assumes "arena_blocks st = Some bs" "first_fit hs n st = None"
  shows "\<forall>b \<in> set bs. \<not> qualifies hs n (heap st b)"
  using assms by (auto simp: first_fit_def find_None_iff)

lemma alloc_ndebug_first_fit:
  assumes "first_fit hs n st = Some a"
  shows "alloc True hs n st = Some (Inr (a + hs, st\<lparr>mem := store_free (mem st) a False\<rparr>))"
proof -
  from assms obtain bs where bs: "arena_blocks st = Some bs"
    and f: "find (\<lambda>a. qualifies hs n (heap st a)) bs = Some a"
    by (auto simp: first_fit_def split: option.splits)
  from f have "qualifies hs n (heap st a)" by (auto simp: find_Some_iff)
  then have nw: "unat n + hs < 2 ^ 32" by (rule qualifies_bound)
  show ?thesis
    unfolding alloc_partitioned [OF bs]
    by (simp add: assert_size_def find_qualifies_no_wrap [OF nw] f)
qed

lemma alloc_ndebug_grow:
  assumes "partitioned st" "first_fit hs n st = None" "unat n + hs < 2 ^ 32"
  shows "alloc True hs n st = Some (alloc_new hs (n + word_of_nat hs) st) \<and>
         unat (n + word_of_nat hs :: 32 word) = unat n + hs"
proof -
  from assms(1) obtain bs where bs: "arena_blocks st = Some bs"
    by (auto simp: partitioned_def)
  have f: "find (\<lambda>a. qualifies hs n (heap st a)) bs = None"
    using assms(2) bs by (simp add: first_fit_def)
  show ?thesis
    unfolding alloc_partitioned [OF bs]
    by (simp add: assert_size_def find_qualifies_no_wrap [OF assms(3)] f no_wrap [OF assms(3)])
qed

section \<open>Arenas whose blocks hold their headers\<close>

text \<open>The walk depends on the sizes of the blocks it meets only.\<close>

lemma blocks_same_blocks:
  "blocks h a e = Some bs \<Longrightarrow> (\<And>x. x \<in> set bs \<Longrightarrow> mcb_size (h' x) = mcb_size (h x)) \<Longrightarrow>
   blocks h' a e = Some bs"
proof (induction h a e arbitrary: bs rule: blocks.induct)
  case (1 h a e)
  show ?case
  proof (cases "a = e")
    case True
    then show ?thesis using "1.prems"(1) by (simp add: blocks_refl)
  next
    case False
    then have ok: "\<not> e < a" "mcb_size (h a) \<noteq> 0"
      using "1.prems"(1) by (auto simp: blocks.simps [of h a e] split: if_splits)
    then obtain bs' where bs': "blocks h (a + unat (mcb_size (h a))) e = Some bs'" "bs = a # bs'"
      using False "1.prems"(1) by (auto simp: blocks.simps [of h a e])
    have sz: "mcb_size (h' a) = mcb_size (h a)" using "1.prems"(2) bs'(2) by simp
    have "blocks h' (a + unat (mcb_size (h a))) e = Some bs'"
      using "1.IH" [OF False _ bs'(1)] ok "1.prems"(2) bs'(2) by simp
    then show ?thesis
      using False ok sz bs'(2) by (simp add: blocks.simps [of h' a e])
  qed
qed

text \<open>Every block ends at or before the end of the walk.\<close>

lemma blocks_end:
  "blocks h a e = Some bs \<Longrightarrow> x \<in> set bs \<Longrightarrow> x + unat (mcb_size (h x)) \<le> e"
proof (induction h a e arbitrary: bs rule: blocks.induct)
  case (1 h a e)
  show ?case
  proof (cases "a = e")
    case True
    then show ?thesis using "1.prems" by (simp add: blocks_refl)
  next
    case False
    then have ok: "\<not> e < a" "mcb_size (h a) \<noteq> 0"
      using "1.prems"(1) by (auto simp: blocks.simps [of h a e] split: if_splits)
    then obtain bs' where bs': "blocks h (a + unat (mcb_size (h a))) e = Some bs'" "bs = a # bs'"
      using False "1.prems"(1) by (auto simp: blocks.simps [of h a e])
    show ?thesis
    proof (cases "x = a")
      case True
      have "bs' = [] \<or> (\<exists>y. y \<in> set bs')" by (cases bs') auto
      then show ?thesis
      proof
        assume "bs' = []"
        then have "a + unat (mcb_size (h a)) = e"
          using bs'(1) by (auto simp: blocks.simps [of h "a + unat (mcb_size (h a))" e]
              split: if_splits)
        then show ?thesis using True by simp
      next
        assume "\<exists>y. y \<in> set bs'"
        then obtain y where "y \<in> set bs'" by blast
        then have "a + unat (mcb_size (h a)) \<le> y \<and> y < e" by (rule blocks_bounds [OF bs'(1)])
        then show ?thesis using True by simp
      qed
    next
      case False': False
      then have "x \<in> set bs'" using bs'(2) "1.prems"(2) by simp
      then show ?thesis using "1.IH" [OF False _ bs'(1)] ok by simp
    qed
  qed
qed

text \<open>Two blocks of \<open>k\<close> bytes or more lie \<open>k\<close> bytes or more apart.\<close>

lemma blocks_apart:
  "blocks h a e = Some bs \<Longrightarrow> (\<And>z. z \<in> set bs \<Longrightarrow> k \<le> unat (mcb_size (h z))) \<Longrightarrow>
   x \<in> set bs \<Longrightarrow> y \<in> set bs \<Longrightarrow> x < y \<Longrightarrow> x + k \<le> y"
proof (induction h a e arbitrary: bs rule: blocks.induct)
  case (1 h a e)
  show ?case
  proof (cases "a = e")
    case True
    then show ?thesis using "1.prems" by (simp add: blocks_refl)
  next
    case False
    then have ok: "\<not> e < a" "mcb_size (h a) \<noteq> 0"
      using "1.prems"(1) by (auto simp: blocks.simps [of h a e] split: if_splits)
    then obtain bs' where bs': "blocks h (a + unat (mcb_size (h a))) e = Some bs'" "bs = a # bs'"
      using False "1.prems"(1) by (auto simp: blocks.simps [of h a e])
    have tl: "\<And>z. z \<in> set bs' \<Longrightarrow> a + unat (mcb_size (h a)) \<le> z"
      using blocks_bounds [OF bs'(1)] by simp
    have ka: "k \<le> unat (mcb_size (h a))" using "1.prems"(2) bs'(2) by simp
    show ?thesis
    proof (cases "x = a")
      case True
      then have "y \<in> set bs'" using "1.prems"(4,5) bs'(2) by auto
      then show ?thesis using tl [of y] ka True by simp
    next
      case False': False
      then have x: "x \<in> set bs'" using "1.prems"(3) bs'(2) by simp
      have "y \<noteq> a" using tl [OF x] "1.prems"(5) by auto
      then have y: "y \<in> set bs'" using "1.prems"(4) bs'(2) by simp
      show ?thesis
        using "1.IH" [OF False _ bs'(1) _ x y "1.prems"(5)] ok "1.prems"(2) bs'(2) by simp
    qed
  qed
qed

text \<open>
  Setting or clearing the flag of a block changes the size of no block, where every block
  has 8 bytes or more.
\<close>

lemma flag_store_sizes:
  assumes bs: "arena_blocks st = Some bs"
    and big: "\<And>z. z \<in> set bs \<Longrightarrow> 8 \<le> unat (mcb_size (heap st z))"
    and a: "a \<in> set bs" and b: "b \<in> set bs"
  shows "mcb_size (heap (st\<lparr>mem := store_free (mem st) a v\<rparr>) b) = mcb_size (heap st b)"
    and "mcb_free (heap (st\<lparr>mem := store_free (mem st) a v\<rparr>) b) =
           (if b = a then v else mcb_free (heap st b))"
proof -
  have bl: "blocks (heap st) (mem_start st) (last_addr st) = Some bs"
    using bs by (simp add: arena_blocks_def)
  have "a < b + 4 \<or> b + 7 < a"
  proof (cases "a < b" "b < a" rule: case_split [case_product case_split])
    case True_True
    then show ?thesis by simp
  next
    case True_False
    then show ?thesis by simp
  next
    case False_True
    then have "b + 8 \<le> a" using blocks_apart [OF bl big b a] by simp
    then show ?thesis by simp
  next
    case False_False
    then show ?thesis by simp
  qed
  then show "mcb_size (heap (st\<lparr>mem := store_free (mem st) a v\<rparr>) b) = mcb_size (heap st b)"
    by (simp add: heap_def load_mcb_def load_size_store_free)
  show "mcb_free (heap (st\<lparr>mem := store_free (mem st) a v\<rparr>) b) =
           (if b = a then v else mcb_free (heap st b))"
    by (simp add: heap_def load_mcb_def load_free_store_free)
qed

lemma flag_store_blocks:
  assumes bs: "arena_blocks st = Some bs"
    and big: "\<And>z. z \<in> set bs \<Longrightarrow> 8 \<le> unat (mcb_size (heap st z))"
    and a: "a \<in> set bs"
  shows "arena_blocks (st\<lparr>mem := store_free (mem st) a v\<rparr>) = Some bs"
proof -
  have bl: "blocks (heap st) (mem_start st) (last_addr st) = Some bs"
    using bs by (simp add: arena_blocks_def)
  have "blocks (heap (st\<lparr>mem := store_free (mem st) a v\<rparr>)) (mem_start st) (last_addr st) = Some bs"
    using flag_store_sizes(1) [OF bs big a] by (intro blocks_same_blocks [OF bl]) simp
  then show ?thesis by (simp add: arena_blocks_def)
qed

text \<open>
  A header stored at \<^verbatim>\<open>last_addr_\<close> changes no header of the arena, where every block has 8
  bytes or more, and becomes the last block when its size is not 0.
\<close>

lemma new_header_old:
  assumes bs: "arena_blocks st = Some bs"
    and big: "\<And>z. z \<in> set bs \<Longrightarrow> 8 \<le> unat (mcb_size (heap st z))"
    and b: "b \<in> set bs"
  shows "load_mcb (store_mcb (mem st) (last_addr st) f w) b = heap st b"
proof -
  have bl: "blocks (heap st) (mem_start st) (last_addr st) = Some bs"
    using bs by (simp add: arena_blocks_def)
  have "b + 8 \<le> last_addr st" using blocks_end [OF bl b] big [OF b] by simp
  then show ?thesis by (simp add: heap_def load_mcb_store_mcb_other)
qed

lemma new_header_blocks:
  assumes bs: "arena_blocks st = Some bs"
    and big: "\<And>z. z \<in> set bs \<Longrightarrow> 8 \<le> unat (mcb_size (heap st z))"
    and w: "w \<noteq> 0"
    and st': "mem st' = store_mcb (mem st) (last_addr st) f w" "mem_start st' = mem_start st"
      "last_addr st' = last_addr st + unat w"
  shows "arena_blocks st' = Some (bs @ [last_addr st])"
proof -
  have bl: "blocks (heap st) (mem_start st) (last_addr st) = Some bs"
    using bs by (simp add: arena_blocks_def)
  have old: "\<And>x. x \<in> set bs \<Longrightarrow> heap st' x = heap st x"
    using new_header_old [OF bs big] by (simp add: heap_def st'(1))
  have bl': "blocks (heap st') (mem_start st) (last_addr st) = Some bs"
    using old by (intro blocks_same_blocks [OF bl]) simp
  have new: "heap st' (last_addr st) = \<lparr>mcb_free = f, mcb_size = w\<rparr>"
    by (simp add: heap_def st'(1) load_mcb_store_mcb)
  have "blocks (heap st') (mem_start st) (last_addr st + unat (mcb_size (heap st' (last_addr st))))
          = Some (bs @ [last_addr st])"
    using w new by (intro blocks_append [OF bl']) simp
  then show ?thesis by (simp add: arena_blocks_def st' new)
qed

section \<open>The arenas of the assert build\<close>

lemma unat_assert_total: "hs + 1 < 2 ^ 32 \<Longrightarrow> unat (1 + word_of_nat hs :: 32 word) = hs + 1"
  using no_wrap [of 1 hs] by simp

lemma uniformD:
  assumes "uniform hs st P"
  shows "\<exists>bs. arena_blocks st = Some bs \<and>
           (\<forall>z \<in> set bs. mcb_size (heap st z) = 1 + word_of_nat hs) \<and>
           (\<forall>p \<in> P. hs \<le> p \<and> p - hs \<in> set bs)"
  using assms by (auto simp: uniform_def list_all_iff split: option.splits)

lemma uniformI:
  assumes "arena_blocks st = Some bs"
    and "\<And>z. z \<in> set bs \<Longrightarrow> mcb_size (heap st z) = 1 + word_of_nat hs"
    and "\<And>p. p \<in> P \<Longrightarrow> hs \<le> p \<and> p - hs \<in> set bs"
  shows "uniform hs st P"
  using assms by (auto simp: uniform_def list_all_iff)

lemma uniform_flag_store:
  assumes u: "uniform hs st P" and hs: "8 \<le> hs" "hs + 1 < 2 ^ 32"
    and bs: "arena_blocks st = Some bs" and a: "a \<in> set bs"
  shows "uniform hs (st\<lparr>mem := store_free (mem st) a v\<rparr>) (insert (a + hs) P)"
proof -
  from uniformD [OF u] bs have sz: "\<And>z. z \<in> set bs \<Longrightarrow> mcb_size (heap st z) = 1 + word_of_nat hs"
    and P: "\<And>p. p \<in> P \<Longrightarrow> hs \<le> p \<and> p - hs \<in> set bs"
    by auto
  have big: "\<And>z. z \<in> set bs \<Longrightarrow> 8 \<le> unat (mcb_size (heap st z))"
    using sz hs by (simp add: unat_assert_total)
  show ?thesis
  proof (rule uniformI [OF flag_store_blocks [OF bs big a]])
    fix z assume "z \<in> set bs"
    then show "mcb_size (heap (st\<lparr>mem := store_free (mem st) a v\<rparr>) z) = 1 + word_of_nat hs"
      using flag_store_sizes(1) [OF bs big a] sz by simp
  next
    fix p assume "p \<in> insert (a + hs) P"
    then show "hs \<le> p \<and> p - hs \<in> set bs" using P a by auto
  qed
qed

lemma uniform_alloc:
  assumes u: "uniform hs st P" and hs: "8 \<le> hs" "hs + 1 < 2 ^ 32"
    and al: "alloc False hs n st = Some (Inr (p, st'))"
  shows "uniform hs st' (insert p P)"
proof -
  from uniformD [OF u] obtain bs where bs: "arena_blocks st = Some bs"
    and sz: "\<And>z. z \<in> set bs \<Longrightarrow> mcb_size (heap st z) = 1 + word_of_nat hs"
    and P: "\<And>p. p \<in> P \<Longrightarrow> hs \<le> p \<and> p - hs \<in> set bs"
    by auto
  have big: "\<And>z. z \<in> set bs \<Longrightarrow> 8 \<le> unat (mcb_size (heap st z))"
    using sz hs by (simp add: unat_assert_total)
  let ?sz = "1 + word_of_nat hs :: 32 word"
  let ?f = "find (\<lambda>a. mcb_free (heap st a) \<and> ?sz \<le> mcb_size (heap st a)) bs"
  show ?thesis
  proof (cases ?f)
    case (Some a)
    then have a: "a \<in> set bs" by (auto simp: find_Some_iff)
    have "p = a + hs" "st' = st\<lparr>mem := store_free (mem st) a False\<rparr>"
      using al Some by (simp_all add: alloc_partitioned [OF bs] assert_size_def)
    then show ?thesis using uniform_flag_store [OF u hs bs a] by simp
  next
    case None
    then have n: "alloc_new hs ?sz st = Inr (p, st')"
      using al by (simp add: alloc_partitioned [OF bs] assert_size_def)
    then have p: "p = last_addr st + hs"
      and m: "mem st' = store_mcb (mem st) (last_addr st) False ?sz"
      and ms: "mem_start st' = mem_start st"
      and la: "last_addr st' = last_addr st + unat ?sz"
      by (auto simp: alloc_new_eq split: if_splits)
    have nz: "?sz \<noteq> 0" using unat_assert_total [OF hs(2)] by (metis Suc_eq_plus1 nat.simps(3) unat_0)
    have bs': "arena_blocks st' = Some (bs @ [last_addr st])"
      by (rule new_header_blocks [OF bs big nz m ms la])
    show ?thesis
    proof (rule uniformI [OF bs'])
      fix z assume "z \<in> set (bs @ [last_addr st])"
      then consider "z \<in> set bs" | "z = last_addr st" by auto
      then show "mcb_size (heap st' z) = ?sz"
      proof cases
        case 1
        then show ?thesis using new_header_old [OF bs big 1] sz by (simp add: heap_def m)
      next
        case 2
        then show ?thesis by (simp add: heap_def m load_mcb_store_mcb)
      qed
    next
      fix q assume "q \<in> insert p P"
      then show "hs \<le> q \<and> q - hs \<in> set (bs @ [last_addr st])" using P p by auto
    qed
  qed
qed

lemma uniform_free:
  assumes u: "uniform hs st P" and hs: "8 \<le> hs" "hs + 1 < 2 ^ 32" and p: "p \<in> P"
  shows "uniform hs (free hs p st) P"
proof -
  from uniformD [OF u] obtain bs where bs: "arena_blocks st = Some bs"
    and P: "\<And>p. p \<in> P \<Longrightarrow> hs \<le> p \<and> p - hs \<in> set bs"
    by auto
  have a: "p - hs \<in> set bs" "p - hs + hs = p" using P [OF p] by auto
  have "insert p P = P" using p by auto
  then show ?thesis
    using uniform_flag_store [OF u hs bs a(1), of True] a(2) by (simp add: free_def Let_def)
qed

lemma uniform_step:
  assumes "step False hs (st, P) (st', P')" "uniform hs st P" "8 \<le> hs" "hs + 1 < 2 ^ 32"
  shows "uniform hs st' P'"
  using assms
proof (cases rule: step.cases)
  case (step_alloc n p)
  then show ?thesis using uniform_alloc [OF assms(2-4), of n p st'] by simp
next
  case (step_free p)
  then show ?thesis using uniform_free [OF assms(2-4)] by simp
qed

lemma uniform_steps:
  assumes "(step False hs)\<^sup>*\<^sup>* s s'" "uniform hs (fst s) (snd s)" "8 \<le> hs" "hs + 1 < 2 ^ 32"
  shows "uniform hs (fst s') (snd s')"
  using assms
proof (induction rule: rtranclp_induct)
  case base
  then show ?case by simp
next
  case (step y z)
  then show ?case using uniform_step [of hs "fst y" "snd y" "fst z" "snd z"] by simp
qed

text \<open>
  In the build with the assertion, every state reached has an arena of blocks of \<open>1 + hs\<close>
  bytes, and every pointer handed out is the payload of one of them.
\<close>

lemma reachable_uniform:
  assumes "reachable False hs st P" "8 \<le> hs" "hs + 1 < 2 ^ 32"
  shows "uniform hs st P"
proof -
  from assms(1) obtain m b lim pg where
    "(step False hs)\<^sup>*\<^sup>* (Allocator m b lim pg, {}) (st, P)"
    by (auto simp: reachable_def)
  from uniform_steps [OF this] assms(2,3) show ?thesis
    by (simp add: uniform_def Allocator_partitioned)
qed



lemma fresh_alloc_1: "alloc False 8 1 fresh = Some (Inr (1008, small_block))"
  by (simp add: alloc_partitioned [OF fresh_blocks] assert_size_def alloc_new_eq)
    (simp add: fresh_eq small_block_def sbrk_def page_end_def)


lemma freed_small_heap:
  "heap (free 8 1008 small_block) 1000 = \<lparr>mcb_free = True, mcb_size = 9\<rparr>"
  using small_block_heap
  by (simp add: heap_def free_def Let_def load_mcb_def load_free_store_free load_size_store_free)

lemma freed_small_blocks: "arena_blocks (free 8 1008 small_block) = Some [1000]"
  by (simp add: arena_blocks_def free_def Let_def blocks.simps small_block_ends
      freed_small_heap [unfolded free_def Let_def, simplified])


section \<open>alloc with the assertion\<close>

lemma alloc_assert_build: "alloc False hs n st = alloc False hs 1 st"
  by (simp add: alloc_def assert_size_def)

text \<open>
  Unless \<^verbatim>\<open>NDEBUG\<close> is defined, \<^verbatim>\<open>assert(size =! 0)\<close> sets \<^verbatim>\<open>size\<close> to 1, and every call of
  \<^verbatim>\<open>alloc\<close> looks for, or makes, a block of \<open>1 + hs\<close> bytes, whatever was asked for. The
  comment at the head of the file says that a block is taken when its "size is >= requested
  size and the free bit is set".
\<close>

text \<open>
  C2. The claim: when no block qualifies, \<^verbatim>\<open>alloc(n)\<close> moves \<^verbatim>\<open>last_addr_\<close> up by \<open>n + hs\<close> and
  writes a header of size \<open>n + hs\<close>. With the assertion compiled in and headers of 8 bytes,
  \<^verbatim>\<open>alloc(20)\<close> on the fresh allocator at 1000 moves \<^verbatim>\<open>last_addr_\<close> to 1009, not to 1028, and
  the header says 9, not 28.
\<close>

theorem growth_assert_build:
  "first_fit 8 20 fresh = None \<and> last_addr fresh = 1000 \<and>
   alloc False 8 20 fresh = Some (Inr (1008, small_block)) \<and>
   last_addr small_block = 1009 \<and>
   heap small_block 1000 = \<lparr>mcb_free = False, mcb_size = 9\<rparr>"
proof -
  have l: "last_addr fresh = 1000" by (simp add: fresh_eq)
  have a: "alloc False 8 20 fresh = Some (Inr (1008, small_block))"
    using fresh_alloc_1 alloc_assert_build [of 8 20 fresh] by simp
  show ?thesis
    using l a by (simp add: first_fit_def fresh_blocks small_block_heap small_block_ends)
qed

lemma small_block_eq:
  "small_block = fresh\<lparr>last_addr := 1009, mem := store_mcb zero_mem 1000 False 9, brk := 1009\<rparr>"
  by (simp add: small_block_def fresh_eq)

lemma two_small_heap:
  "heap two_small 1000 = \<lparr>mcb_free = False, mcb_size = 9\<rparr>"
  "heap two_small 1009 = \<lparr>mcb_free = False, mcb_size = 9\<rparr>"
  by (simp_all add: heap_def two_small_def load_mcb_store_mcb load_mcb_store_mcb_other)

text \<open>
  C6. The claim: with no free in between, the pointers returned increase and the payloads
  \<open>[p\<^sub>i, p\<^sub>i + s\<^sub>i)\<close> are pairwise disjoint. With the assertion compiled in and headers of 8
  bytes, \<^verbatim>\<open>alloc(20)\<close> twice on the fresh allocator returns 1008 and 1017: the payloads
  \<open>[1008, 1028)\<close> and \<open>[1017, 1037)\<close> overlap.
\<close>

theorem overlap_assert_build:
  "alloc_seq False 8 [20, 20] fresh = Some (Inr ([1008, 1017], two_small)) \<and>
   \<not> spans_disjoint (zip [1008, 1017] (map unat [20, 20 :: 32 word]))"
proof -
  have a1: "alloc False 8 20 fresh = Some (Inr (1008, small_block))"
    using fresh_alloc_1 alloc_assert_build [of 8 20 fresh] by simp
  have a2: "alloc False 8 20 small_block = Some (Inr (1017, two_small))"
    by (simp add: alloc_partitioned [OF small_block_blocks] assert_size_def alloc_new_eq
        small_block_heap)
      (simp add: small_block_def two_small_def sbrk_def page_end_def)
  have "alloc_seq False 8 [20, 20] fresh = Some (Inr ([1008, 1017], two_small))"
    using a1 a2 by simp
  then show ?thesis by (simp add: overlap_def)
qed

text \<open>
  C7. The claim: a freed block of size \<open>X\<close> is not reused for a request \<open>Y\<close> with
  \<open>Y + hs > X\<close>. With the assertion compiled in and headers of 8 bytes, \<^verbatim>\<open>alloc(1)\<close> on the
  fresh allocator makes a block of size 9 and returns 1008; after \<^verbatim>\<open>free(1008)\<close> no block
  qualifies for 100 bytes, and \<^verbatim>\<open>alloc(100)\<close> returns 1008 again.
\<close>

theorem reuse_assert_build:
  "alloc False 8 1 fresh = Some (Inr (1008, small_block)) \<and>
   arena_blocks small_block = Some [1000] \<and>
   mcb_size (heap small_block 1000) = 9 \<and>
   first_fit 8 100 (free 8 1008 small_block) = None \<and>
   alloc False 8 100 (free 8 1008 small_block) = Some (Inr (1008, small_block))"
proof -
  have a2: "alloc False 8 100 (free 8 1008 small_block) =
      Some (Inr (1008, (free 8 1008 small_block)
              \<lparr>mem := store_free (mem (free 8 1008 small_block)) 1000 False\<rparr>))"
    by (simp add: alloc_partitioned [OF freed_small_blocks] assert_size_def freed_small_heap)
  have e: "(free 8 1008 small_block)\<lparr>mem := store_free (mem (free 8 1008 small_block)) 1000 False\<rparr>
      = small_block"
    by (auto simp: free_def Let_def small_block_def store_free_def store_mcb_def store_size_def
        fun_eq_iff)
  have f: "first_fit 8 100 (free 8 1008 small_block) = None"
    by (simp add: first_fit_def freed_small_blocks qualifies_def freed_small_heap)
  show ?thesis
    using fresh_alloc_1 a2 e f by (simp add: small_block_blocks small_block_heap)
qed

section \<open>alloc when the heap cannot grow\<close>

text \<open>
  The claim C3, that \<^verbatim>\<open>alloc\<close> fails with an out-of-memory result when \<^verbatim>\<open>sbrk\<close> fails, does
  not hold. In a process whose break, at 1000 in the middle of a page, cannot move,
  \<^verbatim>\<open>sbrk(24)\<close> fails, and \<^verbatim>\<open>alloc(16)\<close> returns 1008 and moves \<^verbatim>\<open>last_addr_\<close> from 1000 to
  1024. Where the break lies at the end of a page, the store of the header ends the process
  with a segmentation fault.
\<close>

theorem out_of_memory_counterexample:
  "sbrk (unat (16 + word_of_nat 8 :: 32 word)) fresh_full = (sbrk_failed, fresh_full) \<and>
   alloc True 8 16 fresh_full =
     Some (Inr (1008, fresh_full\<lparr>last_addr := 1024,
                                  mem := store_mcb zero_mem 1000 False 24\<rparr>)) \<and>
   last_addr fresh_full = 1000 \<and>
   sbrk (unat (16 + word_of_nat 8 :: 32 word)) fresh_aligned = (sbrk_failed, fresh_aligned) \<and>
   alloc True 8 16 fresh_aligned = Some (Inl Segfault)"
proof -
  have "alloc True 8 16 fresh_full =
     Some (Inr (1008, fresh_full\<lparr>last_addr := 1024,
                                  mem := store_mcb zero_mem 1000 False 24\<rparr>))"
    by (simp add: alloc_partitioned [OF fresh_full_blocks] assert_size_def alloc_new_eq)
      (simp add: fresh_full_eq sbrk_def page_end_def)
  moreover have "alloc True 8 16 fresh_aligned = Some (Inl Segfault)"
    by (simp add: alloc_partitioned [OF fresh_aligned_blocks] assert_size_def alloc_new_eq)
      (simp add: fresh_aligned_eq sbrk_def page_end_def)
  ultimately show ?thesis
    by (simp add: sbrk_def fresh_full_eq fresh_aligned_eq)
qed

text \<open>
  C3, amended. When the loop of \<^verbatim>\<open>alloc\<close> finds no block and \<^verbatim>\<open>sbrk\<close> cannot move the break,
  \<^verbatim>\<open>alloc\<close> reports nothing: it drops the answer of \<^verbatim>\<open>sbrk\<close> and stores the header of the
  new block at \<^verbatim>\<open>last_addr_\<close>. Where the 8 bytes of that header are accessible, the header is
  written (not free, of the total size), \<^verbatim>\<open>last_addr_\<close> moves up by the total size and the
  payload pointer is returned, as when the heap has grown, only the break staying where it
  was. Where they are not, the store ends the process with a segmentation fault.
\<close>

theorem alloc_ignores_sbrk_failure:
  assumes "alloc_loop hs (assert_size ndebug n + word_of_nat hs) (mem_start st) st = Some (None, st)"
    and "brk_limit st < brk st + unat (assert_size ndebug n + word_of_nat hs)"
  shows "sbrk (unat (assert_size ndebug n + word_of_nat hs)) st = (sbrk_failed, st) \<and>
         alloc ndebug hs n st =
           Some (if last_addr st + 7 < page_end st
                 then Inr (last_addr st + hs,
                           st\<lparr>last_addr :=
                                last_addr st + unat (assert_size ndebug n + word_of_nat hs),
                              mem := store_mcb (mem st) (last_addr st) False
                                       (assert_size ndebug n + word_of_nat hs)\<rparr>)
                 else Inl Segfault)"
proof -
  have s: "sbrk (unat (assert_size ndebug n + word_of_nat hs)) st = (sbrk_failed, st)"
    using assms(2) by (simp add: sbrk_def)
  have "st\<lparr>brk := brk st\<rparr> = st" by simp
  then show ?thesis
    using assms(1) s by (simp add: alloc_def Let_def alloc_new_eq)
qed

theorem alloc_ignores_sbrk_failure_witness:
  "alloc_loop 8 (assert_size True 16 + word_of_nat 8) (mem_start fresh_full) fresh_full
     = Some (None, fresh_full) \<and>
   brk_limit fresh_full < brk fresh_full + unat (assert_size True 16 + word_of_nat 8 :: 32 word) \<and>
   sbrk (unat (assert_size True 16 + word_of_nat 8 :: 32 word)) fresh_full
     = (sbrk_failed, fresh_full) \<and>
   last_addr fresh_full + 7 < page_end fresh_full \<and>
   alloc True 8 16 fresh_full =
     Some (Inr (last_addr fresh_full + 8,
           fresh_full\<lparr>last_addr :=
                         last_addr fresh_full + unat (assert_size True 16 + word_of_nat 8 :: 32 word),
              mem := store_mcb (mem fresh_full) (last_addr fresh_full) False
                       (assert_size True 16 + word_of_nat 8)\<rparr>)) \<and>
   alloc_loop 8 (assert_size True 16 + word_of_nat 8) (mem_start fresh_aligned) fresh_aligned
     = Some (None, fresh_aligned) \<and>
   brk_limit fresh_aligned
     < brk fresh_aligned + unat (assert_size True 16 + word_of_nat 8 :: 32 word) \<and>
   \<not> last_addr fresh_aligned + 7 < page_end fresh_aligned \<and>
   alloc True 8 16 fresh_aligned = Some (Inl Segfault)"
proof -
  have b: "blocks (heap fresh_full) (mem_start fresh_full) (last_addr fresh_full) = Some []"
    using fresh_full_blocks by (simp add: arena_blocks_def)
  have l: "alloc_loop 8 (assert_size True 16 + word_of_nat 8) (mem_start fresh_full) fresh_full
     = Some (None, fresh_full)"
    by (simp add: alloc_loop_blocks [OF b])
  have f: "brk_limit fresh_full < brk fresh_full + unat (assert_size True 16 + word_of_nat 8 :: 32 word)"
    by (simp add: fresh_full_eq assert_size_def)
  have a: "last_addr fresh_full + 7 < page_end fresh_full"
    by (simp add: fresh_full_eq page_end_def)
  have b': "blocks (heap fresh_aligned) (mem_start fresh_aligned) (last_addr fresh_aligned) = Some []"
    using fresh_aligned_blocks by (simp add: arena_blocks_def)
  have l': "alloc_loop 8 (assert_size True 16 + word_of_nat 8) (mem_start fresh_aligned)
      fresh_aligned = Some (None, fresh_aligned)"
    by (simp add: alloc_loop_blocks [OF b'])
  have f': "brk_limit fresh_aligned
      < brk fresh_aligned + unat (assert_size True 16 + word_of_nat 8 :: 32 word)"
    by (simp add: fresh_aligned_eq assert_size_def)
  have a': "\<not> last_addr fresh_aligned + 7 < page_end fresh_aligned"
    by (simp add: fresh_aligned_eq page_end_def)
  show ?thesis
    using alloc_ignores_sbrk_failure [OF l f] alloc_ignores_sbrk_failure [OF l' f'] l f a l' f' a'
    by simp
qed

section \<open>alloc of zero bytes\<close>

text \<open>
  The claim C4, that \<^verbatim>\<open>alloc(0)\<close> makes a new block of exactly \<open>hs\<close> bytes, does not hold.
  With the assertion compiled in, the new block on the fresh allocator has 9 bytes for a
  header of 8. With \<^verbatim>\<open>NDEBUG\<close>, on the arena of two free blocks no block is made: the first
  free block, of 9 bytes, is taken.
\<close>

theorem alloc_zero_counterexample:
  "alloc False 8 0 fresh = Some (Inr (1008, small_block)) \<and>
   heap small_block 1000 = \<lparr>mcb_free = False, mcb_size = 9\<rparr> \<and>
   arena_blocks two_free = Some [1000, 1009] \<and>
   heap two_free 1000 = \<lparr>mcb_free = True, mcb_size = 9\<rparr> \<and>
   alloc True 8 0 two_free =
     Some (Inr (1008, two_free\<lparr>mem := store_free (mem two_free) 1000 False\<rparr>)) \<and>
   arena_blocks (two_free\<lparr>mem := store_free (mem two_free) 1000 False\<rparr>) = Some [1000, 1009]"
proof -
  have 1: "alloc False 8 0 fresh = Some (Inr (1008, small_block))"
    using fresh_alloc_1 alloc_assert_build [of 8 0 fresh] by simp
  have 2: "alloc True 8 0 two_free =
     Some (Inr (1008, two_free\<lparr>mem := store_free (mem two_free) 1000 False\<rparr>))"
    by (simp add: alloc_partitioned [OF two_free_blocks] assert_size_def two_free_heap)
  have big: "\<And>z. z \<in> set [1000, 1009] \<Longrightarrow> 8 \<le> unat (mcb_size (heap two_free z))"
    using two_free_heap by auto
  have 3: "arena_blocks (two_free\<lparr>mem := store_free (mem two_free) 1000 False\<rparr>)
      = Some [1000, 1009]"
    by (rule flag_store_blocks [OF two_free_blocks big, of 1000]) simp_all
  show ?thesis using 1 2 3 by (simp add: small_block_heap two_free_heap two_free_blocks)
qed

text \<open>
  C4, amended. On a partitioned arena \<^verbatim>\<open>alloc(0)\<close> is not rejected, in either build: the
  guard rejects nothing, and the call ends. With \<^verbatim>\<open>NDEBUG\<close> the request is served as one of
  total size \<open>hs\<close>: the earliest free block of size at least \<open>hs\<close> is taken when there is
  one; otherwise a block of exactly \<open>hs\<close> bytes, a header without payload, is put at
  \<^verbatim>\<open>last_addr_\<close>, and \<^verbatim>\<open>last_addr_\<close> plus \<open>hs\<close> is returned (the store of that header
  ending the process where its bytes are not accessible, as for every new block).
\<close>

theorem alloc_zero:
  assumes "partitioned st" and "hs < 2 ^ 32"
  shows "(\<exists>r. alloc ndebug hs 0 st = Some r) \<and>
         (last_addr st + 7 < page_end st \<longrightarrow>
            (\<exists>p st'. alloc ndebug hs 0 st = Some (Inr (p, st')))) \<and>
         (case first_fit hs 0 st of
            Some a \<Rightarrow>
              alloc True hs 0 st =
                Some (Inr (a + hs, st\<lparr>mem := store_free (mem st) a False\<rparr>))
          | None \<Rightarrow>
              alloc True hs 0 st =
                Some (if last_addr st + 7 < page_end (snd (sbrk hs st))
                      then Inr (last_addr st + hs,
                                st\<lparr>last_addr := last_addr st + hs,
                                   mem := store_mcb (mem st) (last_addr st) False (word_of_nat hs),
                                   brk := brk (snd (sbrk hs st))\<rparr>)
                      else Inl Segfault))"
proof -
  from assms(1) obtain bs where bs: "arena_blocks st = Some bs"
    by (auto simp: partitioned_def)
  have r: "\<exists>r. alloc ndebug hs 0 st = Some r"
    by (simp add: alloc_partitioned [OF bs])
  have acc: "\<exists>p st'. alloc ndebug hs 0 st = Some (Inr (p, st'))"
    if "last_addr st + 7 < page_end st"
    using that page_end_sbrk_le [of st "unat (assert_size ndebug 0 + word_of_nat hs)"]
    by (auto simp: alloc_partitioned [OF bs] alloc_new_eq split: option.splits)
  have nw: "unat (0 :: 32 word) + hs < 2 ^ 32" using assms(2) by simp
  show ?thesis
  proof (cases "first_fit hs 0 st")
    case None
    from alloc_ndebug_grow [OF assms(1) None nw]
    show ?thesis using r acc None by (simp add: alloc_new_eq)
  next
    case (Some a)
    then show ?thesis
      using r acc alloc_ndebug_first_fit [OF Some] by simp
  qed
qed

theorem alloc_zero_witness:
  "partitioned fresh \<and> (8::nat) < 2 ^ 32 \<and>
   (\<exists>r. alloc False 8 0 fresh = Some r) \<and>
   last_addr fresh + 7 < page_end fresh \<and>
   (\<exists>p st'. alloc False 8 0 fresh = Some (Inr (p, st'))) \<and>
   first_fit 8 0 fresh = None \<and>
   last_addr fresh + 7 < page_end (snd (sbrk 8 fresh)) \<and>
   alloc True 8 0 fresh =
     Some (Inr (last_addr fresh + 8,
           fresh\<lparr>last_addr := last_addr fresh + 8,
              mem := store_mcb (mem fresh) (last_addr fresh) False (word_of_nat 8),
              brk := brk (snd (sbrk 8 fresh))\<rparr>))"
proof -
  have p: "partitioned fresh" by (simp add: partitioned_def fresh_blocks)
  have h: "(8::nat) < 2 ^ 32" by simp
  have f: "first_fit 8 0 fresh = None" by (simp add: first_fit_def fresh_blocks)
  have a0: "last_addr fresh + 7 < page_end fresh"
    by (simp add: fresh_eq page_end_def)
  have a: "last_addr fresh + 7 < page_end (snd (sbrk 8 fresh))"
    by (simp add: fresh_eq sbrk_def page_end_def)
  show ?thesis
    using alloc_zero [OF p h, of False] p f a0 a by simp
qed

section \<open>Requests whose total size wraps around\<close>

text \<open>
  \<^verbatim>\<open>size += sizeof(mcb_st)\<close> is computed in \<^verbatim>\<open>uint32_t\<close> and not checked. Without the assertion
  a request of \<^verbatim>\<open>0xFFFFFFF9\<close> bytes or more gets a block of 1 to 7 bytes, shorter than the
  header it starts with, so that the next header shares bytes with it. The comment at the
  head of the file says that each piece of memory "has a MCB at the start of it, followed by
  the requested amount of space". (With the assertion compiled in, the total size is always
  \<open>1 + hs\<close> and does not wrap.)
\<close>

lemma wrapped1_heap: "heap wrapped1 1000 = \<lparr>mcb_free = False, mcb_size = 7\<rparr>"
  by (simp add: heap_def wrapped1_def load_mcb_store_mcb)

lemma wrapped1_ends: "mem_start wrapped1 = 1000" "last_addr wrapped1 = 1007"
  by (simp_all add: wrapped1_def)

lemma wrapped1_blocks: "arena_blocks wrapped1 = Some [1000]"
  by (simp add: arena_blocks_def wrapped1_ends blocks.simps wrapped1_heap)

lemma wrapped2_heap:
  "heap wrapped2 1000 = \<lparr>mcb_free = False, mcb_size = 7\<rparr>"
  "heap wrapped2 1007 = \<lparr>mcb_free = False, mcb_size = 24\<rparr>"
  by (simp_all add: heap_def wrapped2_def load_mcb_def load_free_def load_size_def store_mcb_def
      store_free_def store_size_def byte_of_def zero_mem_def)

lemma wrapped2_ends: "mem_start wrapped2 = 1000" "last_addr wrapped2 = 1031"
  by (simp_all add: wrapped2_def)

lemma wrapped2_blocks: "arena_blocks wrapped2 = Some [1000, 1007]"
  by (simp add: arena_blocks_def wrapped2_ends blocks.simps wrapped2_heap)

lemma wrapped3_heap: "heap wrapped3 1000 = \<lparr>mcb_free = False, mcb_size = 16777223\<rparr>"
  by (simp add: heap_def wrapped3_def wrapped2_def free_def Let_def load_mcb_def load_free_def
      load_size_def store_mcb_def store_free_def store_size_def byte_of_def zero_mem_def)

lemma wrapped3_ends: "mem_start wrapped3 = 1000" "last_addr wrapped3 = 1031"
  by (simp_all add: wrapped3_def wrapped2_def free_def Let_def)

lemma wrapped3_blocks: "arena_blocks wrapped3 = None"
  by (simp add: arena_blocks_def wrapped3_ends blocks.simps wrapped3_heap)

lemma fresh_alloc_wrap: "alloc True 8 4294967295 fresh = Some (Inr (1008, wrapped1))"
proof -
  have w: "(4294967295 :: 32 word) + word_of_nat 8 = 7" by simp
  show ?thesis
    by (simp add: alloc_partitioned [OF fresh_blocks] assert_size_def alloc_new_eq w
        del: of_nat_numeral)
      (simp add: fresh_eq wrapped1_def sbrk_def page_end_def)
qed

lemma wrapped1_alloc_16: "alloc True 8 16 wrapped1 = Some (Inr (1015, wrapped2))"
  by (simp add: alloc_partitioned [OF wrapped1_blocks] assert_size_def alloc_new_eq wrapped1_heap)
    (simp add: wrapped1_def wrapped2_def sbrk_def page_end_def)

lemma wrapped2_reachable: "reachable True 8 wrapped2 {1008, 1015}"
proof -
  have "step True 8 (fresh, {}) (wrapped1, insert 1008 {})"
    by (rule step_alloc [OF fresh_alloc_wrap])
  moreover have "step True 8 (wrapped1, {1008}) (wrapped2, insert 1015 {1008})"
    by (rule step_alloc [OF wrapped1_alloc_16])
  ultimately have
    "(step True 8)\<^sup>*\<^sup>* (Allocator zero_mem 1000 4096 4096, {}) (wrapped2, {1008, 1015})"
    by (simp add: fresh_def insert_commute)
  then show ?thesis unfolding reachable_def by blast
qed

lemma wrapped3_reachable: "reachable True 8 wrapped3 {1008, 1015}"
proof -
  from wrapped2_reachable obtain m b lim pg where
    r: "(step True 8)\<^sup>*\<^sup>* (Allocator m b lim pg, {}) (wrapped2, {1008, 1015})"
    by (auto simp: reachable_def)
  have "step True 8 (wrapped2, {1008, 1015}) (free 8 1015 wrapped2, {1008, 1015})"
    by (rule step_free) simp
  with r have "(step True 8)\<^sup>*\<^sup>* (Allocator m b lim pg, {}) (wrapped3, {1008, 1015})"
    by (simp add: wrapped3_def)
  then show ?thesis unfolding reachable_def by blast
qed

text \<open>
  C5. The claim: in every state reached by calls of \<^verbatim>\<open>alloc\<close> and \<^verbatim>\<open>free\<close> the arena is cut
  into blocks without gaps, and the size of a block never changes. With \<^verbatim>\<open>NDEBUG\<close> and
  headers of 8 bytes, \<^verbatim>\<open>alloc(0xFFFFFFFF)\<close> on the fresh allocator makes a block of 7 bytes
  at 1000; \<^verbatim>\<open>alloc(16)\<close> puts the next header at 1007 and returns 1015; \<^verbatim>\<open>free(1015)\<close> stores
  1 in the byte at 1007, which is the highest byte of the size of the block at 1000. That
  size is now 16777223 instead of 7, and the walk from \<^verbatim>\<open>mem_start_\<close> passes \<^verbatim>\<open>last_addr_\<close>.
\<close>

theorem partition_broken_by_wrap:
  "alloc True 8 4294967295 fresh = Some (Inr (1008, wrapped1)) \<and>
   alloc True 8 16 wrapped1 = Some (Inr (1015, wrapped2)) \<and>
   wrapped3 = free 8 1015 wrapped2 \<and>
   reachable True 8 wrapped2 {1008, 1015} \<and> partitioned wrapped2 \<and>
   mcb_size (heap wrapped2 1000) = 7 \<and>
   reachable True 8 wrapped3 {1008, 1015} \<and> \<not> partitioned wrapped3 \<and>
   mcb_size (heap wrapped3 1000) = 16777223"
  using wrapped2_reachable wrapped3_reachable fresh_alloc_wrap wrapped1_alloc_16
  by (simp add: partitioned_def wrapped2_blocks wrapped3_blocks wrapped2_heap wrapped3_heap)
    (simp add: wrapped3_def)

text \<open>
  C8. The claim: \<^verbatim>\<open>free(p)\<close> of a pointer that \<^verbatim>\<open>alloc\<close> returned and that is not yet freed
  sets the flag of its header and changes nothing else. With \<^verbatim>\<open>NDEBUG\<close> and headers of 8
  bytes, after \<^verbatim>\<open>alloc(0xFFFFFFFF)\<close> and \<^verbatim>\<open>alloc(16)\<close> on the fresh allocator, the second
  call having returned 1015, \<^verbatim>\<open>free(1015)\<close> changes the size of the block at 1000 from 7 to
  16777223, and the arena is no longer a sequence of blocks.
\<close>

theorem free_changes_size_after_wrap:
  "alloc True 8 16 wrapped1 = Some (Inr (1015, wrapped2)) \<and>
   reachable True 8 wrapped2 {1008, 1015} \<and>
   \<not> mcb_free (heap wrapped2 (1015 - 8)) \<and>
   arena_blocks wrapped2 = Some [1000, 1007] \<and>
   mcb_size (heap wrapped2 1000) = 7 \<and>
   mcb_size (heap (free 8 1015 wrapped2) 1000) = 16777223 \<and>
   arena_blocks (free 8 1015 wrapped2) = None"
  using wrapped2_reachable wrapped3_blocks wrapped3_heap wrapped1_alloc_16
  by (simp add: wrapped2_blocks wrapped2_heap wrapped3_def)

section \<open>What holds where each block holds its header\<close>

text \<open>
  With the assertion the arena stays partitioned, and \<^verbatim>\<open>free\<close> of a pointer handed out sets
  the flag of its block and changes no other header of the arena.
\<close>

lemma assert_build_partitioned:
  assumes "reachable False hs st P" "8 \<le> hs" "hs + 1 < 2 ^ 32"
  shows "partitioned st"
  using uniformD [OF reachable_uniform [OF assms]] by (auto simp: partitioned_def)

lemma assert_build_free_frame:
  assumes r: "reachable False hs st P" and hs: "8 \<le> hs" "hs + 1 < 2 ^ 32" and p: "p \<in> P"
    and bs: "arena_blocks st = Some bs" and b: "b \<in> set bs"
  shows "arena_blocks (free hs p st) = Some bs"
    and "mcb_size (heap (free hs p st) b) = mcb_size (heap st b)"
    and "mcb_free (heap (free hs p st) b) = (if b = p - hs then True else mcb_free (heap st b))"
proof -
  from uniformD [OF reachable_uniform [OF r hs]] bs
  have sz: "\<And>z. z \<in> set bs \<Longrightarrow> mcb_size (heap st z) = 1 + word_of_nat hs"
    and P: "\<And>p. p \<in> P \<Longrightarrow> hs \<le> p \<and> p - hs \<in> set bs"
    by auto
  have big: "\<And>z. z \<in> set bs \<Longrightarrow> 8 \<le> unat (mcb_size (heap st z))"
    using sz hs by (simp add: unat_assert_total)
  have a: "p - hs \<in> set bs" using P [OF p] by simp
  show "arena_blocks (free hs p st) = Some bs"
    using flag_store_blocks [OF bs big a] by (simp add: free_def Let_def)
  show "mcb_size (heap (free hs p st) b) = mcb_size (heap st b)"
    using flag_store_sizes(1) [OF bs big a b] by (simp add: free_def Let_def)
  show "mcb_free (heap (free hs p st) b) = (if b = p - hs then True else mcb_free (heap st b))"
    using flag_store_sizes(2) [OF bs big a b] by (simp add: free_def Let_def)
qed

text \<open>
  Without the assertion, on an arena whose blocks all have 8 bytes or more: a block is
  freed, no block before it is free; a request that fits in it gets it back, a larger one
  that does not wrap does not.
\<close>

lemma free_then_alloc_ndebug:
  assumes bs: "arena_blocks st = Some bs" and rm: "roomy st" and a: "a \<in> set bs"
    and first: "\<forall>b \<in> set bs. b < a \<longrightarrow> \<not> mcb_free (heap st b)"
  shows "(unat y + hs \<le> unat (mcb_size (heap st a)) \<longrightarrow>
            (\<exists>st'. alloc True hs y (free hs (a + hs) st) = Some (Inr (a + hs, st')))) \<and>
         (unat (mcb_size (heap st a)) < unat y + hs \<and> unat y + hs < 2 ^ 32 \<longrightarrow>
            (\<exists>r. alloc True hs y (free hs (a + hs) st) = Some r \<and>
                 (\<forall>p st'. r = Inr (p, st') \<longrightarrow> p \<noteq> a + hs)))"
proof -
  let ?st = "free hs (a + hs) st"
  have big: "\<And>z. z \<in> set bs \<Longrightarrow> 8 \<le> unat (mcb_size (heap st z))"
    using rm bs by (simp add: roomy_def list_all_iff)
  have st: "?st = st\<lparr>mem := store_free (mem st) a True\<rparr>" by (simp add: free_def Let_def)
  have bs': "arena_blocks ?st = Some bs" using flag_store_blocks [OF bs big a] st by simp
  have hsz: "\<And>b. b \<in> set bs \<Longrightarrow> mcb_size (heap ?st b) = mcb_size (heap st b)"
    using flag_store_sizes(1) [OF bs big a] st by simp
  have hfr: "\<And>b. b \<in> set bs \<Longrightarrow> mcb_free (heap ?st b) = (if b = a then True else mcb_free (heap st b))"
    using flag_store_sizes(2) [OF bs big a] st by simp
  have srt: "sorted_wrt (<) bs"
    using bs blocks_sorted by (simp add: arena_blocks_def)
  have lt: "a < last_addr st"
    using blocks_bounds [of "heap st" "mem_start st" "last_addr st" bs a] bs a
    by (simp add: arena_blocks_def)
  have one: "\<exists>st'. alloc True hs y ?st = Some (Inr (a + hs, st'))"
    if fit: "unat y + hs \<le> unat (mcb_size (heap st a))"
  proof -
    have q: "qualifies hs y (heap ?st a)" using fit hsz [OF a] hfr [OF a] by (simp add: qualifies_def)
    have "find (\<lambda>x. qualifies hs y (heap ?st x)) bs = Some a"
    proof -
      from a obtain i where i: "i < length bs" "bs ! i = a" by (auto simp: in_set_conv_nth)
      have "\<not> qualifies hs y (heap ?st (bs ! j))" if "j < i" for j
      proof -
        have "bs ! j < bs ! i" using srt that i(1) by (simp add: sorted_wrt_iff_nth_less)
        then have "bs ! j < a" "bs ! j \<in> set bs" using i that by auto
        then show ?thesis using first hfr [of "bs ! j"] by (auto simp: qualifies_def)
      qed
      then show ?thesis using i q by (auto simp: find_Some_iff)
    qed
    then have "first_fit hs y ?st = Some a" by (simp add: first_fit_def bs')
    from alloc_ndebug_first_fit [OF this] show ?thesis by simp
  qed
  have two: "\<exists>r. alloc True hs y ?st = Some r \<and> (\<forall>p st'. r = Inr (p, st') \<longrightarrow> p \<noteq> a + hs)"
    if big': "unat (mcb_size (heap st a)) < unat y + hs" and nw: "unat y + hs < 2 ^ 32"
  proof (cases "first_fit hs y ?st")
    case None
    have "partitioned ?st" using bs' by (simp add: partitioned_def)
    from alloc_ndebug_grow [OF this None nw] show ?thesis
      using lt by (auto simp: alloc_new_eq st)
  next
    case (Some b)
    then have "qualifies hs y (heap ?st b)" "b \<in> set bs"
      by (auto simp: first_fit_def bs' find_Some_iff)
    then have "b \<noteq> a" using big' hsz [OF a] by (auto simp: qualifies_def)
    then show ?thesis using alloc_ndebug_first_fit [OF Some] by simp
  qed
  show ?thesis using one two by blast
qed

text \<open>
  Without the assertion, allocations with no free in between, none of size 0 and none that
  wraps, on an arena whose blocks are all in use and have 8 bytes or more: each call that
  returns takes a new block, the pointers increase and the payloads do not overlap.
\<close>

lemma all_used_alloc:
  assumes u: "all_used st" and rm: "roomy st" and hs: "8 \<le> hs"
    and n: "0 < n" "unat n + hs < 2 ^ 32"
    and al: "alloc True hs n st = Some (Inr (p, st'))"
  shows "p = last_addr st + hs \<and> all_used st' \<and> roomy st' \<and>
         last_addr st' = last_addr st + (unat n + hs)"
proof -
  from u obtain bs where bs: "arena_blocks st = Some bs"
    and used: "\<And>z. z \<in> set bs \<Longrightarrow> \<not> mcb_free (heap st z)"
    by (auto simp: all_used_def list_all_iff split: option.splits)
  have big: "\<And>z. z \<in> set bs \<Longrightarrow> 8 \<le> unat (mcb_size (heap st z))"
    using rm bs by (simp add: roomy_def list_all_iff)
  have p: "partitioned st" using bs by (simp add: partitioned_def)
  have f: "first_fit hs n st = None"
    using used by (auto simp: first_fit_def bs find_None_iff qualifies_def)
  let ?sz = "n + word_of_nat hs :: 32 word"
  from alloc_ndebug_grow [OF p f n(2)] al
  have new: "alloc_new hs ?sz st = Inr (p, st')" and usz: "unat ?sz = unat n + hs" by simp_all
  then have pe: "p = last_addr st + hs"
    and m: "mem st' = store_mcb (mem st) (last_addr st) False ?sz"
    and ms: "mem_start st' = mem_start st"
    and la: "last_addr st' = last_addr st + unat ?sz"
    by (auto simp: alloc_new_eq split: if_splits)
  have nz: "?sz \<noteq> 0" using usz hs by (metis add_is_0 not_numeral_le_zero unat_0)
  have bs': "arena_blocks st' = Some (bs @ [last_addr st])"
    by (rule new_header_blocks [OF bs big nz m ms la])
  have old: "\<And>z. z \<in> set bs \<Longrightarrow> heap st' z = heap st z"
    using new_header_old [OF bs big] by (simp add: heap_def m)
  have newh: "heap st' (last_addr st) = \<lparr>mcb_free = False, mcb_size = ?sz\<rparr>"
    by (simp add: heap_def m load_mcb_store_mcb)
  have "all_used st'"
    using used old newh by (auto simp: all_used_def bs' list_all_iff)
  moreover have "roomy st'"
    using big old newh usz hs by (auto simp: roomy_def bs' list_all_iff)
  ultimately show ?thesis using pe la usz by simp
qed

lemma alloc_seq_ndebug:
  assumes "all_used st" "roomy st" "8 \<le> hs" "\<forall>n \<in> set ns. 0 < n \<and> unat n + hs < 2 ^ 32"
  shows "\<exists>r. alloc_seq True hs ns st = Some r \<and>
           (\<forall>ps st'. r = Inr (ps, st') \<longrightarrow>
              length ps = length ns \<and> (\<forall>p \<in> set ps. last_addr st + hs \<le> p) \<and>
              sorted_wrt (<) ps \<and> spans_disjoint (zip ps (map unat ns)))"
  using assms
proof (induction ns arbitrary: st)
  case Nil
  then show ?case by simp
next
  case (Cons n ns)
  then have n: "0 < n" "unat n + hs < 2 ^ 32" by auto
  from Cons.prems(1) obtain bs where "arena_blocks st = Some bs"
    by (auto simp: all_used_def split: option.splits)
  then have "\<exists>r1. alloc True hs n st = Some r1" by (simp add: alloc_partitioned)
  then obtain r1 where r1: "alloc True hs n st = Some r1" by blast
  show ?case
  proof (cases r1)
    case (Inl e)
    then show ?thesis using r1 by simp
  next
    case (Inr q)
    obtain p st1 where q: "q = (p, st1)" by (cases q)
    have a: "alloc True hs n st = Some (Inr (p, st1))" using r1 Inr q by simp
    from all_used_alloc [OF Cons.prems(1,2,3) n a]
    have pe: "p = last_addr st + hs" and u1: "all_used st1" and rm1: "roomy st1"
      and l1: "last_addr st1 = last_addr st + (unat n + hs)" by simp_all
    from Cons.IH [OF u1 rm1 Cons.prems(3)] Cons.prems(4) obtain r2 where
      r2: "alloc_seq True hs ns st1 = Some r2"
      and ok: "\<And>ps st'. r2 = Inr (ps, st') \<Longrightarrow>
              length ps = length ns \<and> (\<forall>p \<in> set ps. last_addr st1 + hs \<le> p) \<and>
              sorted_wrt (<) ps \<and> spans_disjoint (zip ps (map unat ns))"
      by auto
    have pos: "0 < unat n" using n(1) by (simp add: word_less_nat_alt)
    show ?thesis
    proof (cases r2)
      case (Inl e)
      then show ?thesis using a r2 by simp
    next
      case Inr2: (Inr q2)
      obtain ps st' where q2: "q2 = (ps, st')" by (cases q2)
      note r = ok [of ps st', simplified Inr2 q2, simplified]
      have later: "\<forall>x \<in> set ps. last_addr st + hs + unat n \<le> x \<and> last_addr st + hs < x"
        using r l1 pos by auto
      have "list_all (\<lambda>y. \<not> overlap (last_addr st + hs, unat n) y) (zip ps (map unat ns))"
        using later by (auto simp: list_all_iff overlap_def dest!: set_zip_leftD)
      then show ?thesis
        using a r2 Inr2 q2 r later pe by auto
    qed
  qed
qed

lemma Allocator_all_used: "all_used (Allocator m b lim pg) \<and> roomy (Allocator m b lim pg)"
  by (simp add: all_used_def roomy_def Allocator_partitioned)

text \<open>
  Without the assertion, a request for \<^verbatim>\<open>0xFFFFFFF8\<close> bytes has total size 0: the header is
  stored at \<^verbatim>\<open>last_addr_\<close>, which does not move, and the next call returns the same pointer.
\<close>

lemma zero_size_block:
  "alloc True 8 4294967288 fresh =
     Some (Inr (1008, fresh\<lparr>mem := store_mcb zero_mem 1000 False 0\<rparr>)) \<and>
   alloc True 8 16 (fresh\<lparr>mem := store_mcb zero_mem 1000 False 0\<rparr>) =
     Some (Inr (1008, fresh\<lparr>last_addr := 1024,
                             mem := store_mcb (store_mcb zero_mem 1000 False 0) 1000 False 24,
                             brk := 1024\<rparr>))"
proof -
  have w: "(4294967288 :: 32 word) + word_of_nat 8 = 0" by simp
  have 1: "alloc True 8 4294967288 fresh =
     Some (Inr (1008, fresh\<lparr>mem := store_mcb zero_mem 1000 False 0\<rparr>))"
    by (simp add: alloc_partitioned [OF fresh_blocks] assert_size_def alloc_new_eq w
        del: of_nat_numeral)
      (simp add: fresh_eq sbrk_def page_end_def)
  have b: "arena_blocks (fresh\<lparr>mem := store_mcb zero_mem 1000 False 0\<rparr>) = Some []"
    by (simp add: arena_blocks_def fresh_eq blocks_refl)
  have 2: "alloc True 8 16 (fresh\<lparr>mem := store_mcb zero_mem 1000 False 0\<rparr>) =
     Some (Inr (1008, fresh\<lparr>last_addr := 1024,
                             mem := store_mcb (store_mcb zero_mem 1000 False 0) 1000 False 24,
                             brk := 1024\<rparr>))"
    by (simp add: alloc_partitioned [OF b] assert_size_def alloc_new_eq)
      (simp add: fresh_eq sbrk_def page_end_def)
  show ?thesis using 1 2 by simp
qed

end
